theory Spec2Isabelle
  imports Main "HOL-Library.Sublist"
begin

section \<open>Python values\<close>

subsection \<open>Characters and strings\<close>

text \<open>
  Strings are lists of characters; a character is one code point below 256, so the model
  covers the Latin-1 part of Python's \<open>str\<close>. The character classes below are the ones
  that Python's \<open>re\<close> module and \<open>str\<close> methods use on that range.
\<close>

definition is_digit :: "char \<Rightarrow> bool" where
  \<comment> \<open>\<open>\d\<close> of \<open>re\<close> on a \<open>str\<close> pattern: the decimal digits\<close>
  "is_digit c = (c \<in> set ''0123456789'')"

definition is_space :: "char \<Rightarrow> bool" where
  \<comment> \<open>\<open>\s\<close> of \<open>re\<close>, and the characters \<open>str.strip()\<close> and \<open>str.split()\<close> treat as blank\<close>
  "is_space c =
     (let n = (of_char c :: nat)
      in (9 \<le> n \<and> n \<le> 13) \<or> (28 \<le> n \<and> n \<le> 32) \<or> n = 133 \<or> n = 160)"

definition is_word :: "char \<Rightarrow> bool" where
  \<comment> \<open>\<open>\w\<close> of \<open>re\<close>: alphanumeric or the underscore; \<open>\b\<close> is defined from it\<close>
  "is_word c =
     (let n = (of_char c :: nat) in
        (48 \<le> n \<and> n \<le> 57) \<or> (65 \<le> n \<and> n \<le> 90) \<or> n = 95 \<or> (97 \<le> n \<and> n \<le> 122) \<or>
        n = 170 \<or> n = 178 \<or> n = 179 \<or> n = 181 \<or> n = 185 \<or> n = 186 \<or>
        (188 \<le> n \<and> n \<le> 190) \<or> (192 \<le> n \<and> n \<le> 214) \<or> (216 \<le> n \<and> n \<le> 246) \<or>
        248 \<le> n)"

definition is_upper_az :: "char \<Rightarrow> bool" where
  \<comment> \<open>the class \<open>[A-Z]\<close>\<close>
  "is_upper_az c = (c \<in> set ''ABCDEFGHIJKLMNOPQRSTUVWXYZ'')"

definition isdigit_char :: "char \<Rightarrow> bool" where
  \<comment> \<open>a character that \<open>str.isdigit()\<close> accepts: a decimal digit or a superscript digit\<close>
  "isdigit_char c =
     (let n = (of_char c :: nat) in (48 \<le> n \<and> n \<le> 57) \<or> n = 178 \<or> n = 179 \<or> n = 185)"

definition isdigit :: "string \<Rightarrow> bool" where
  "isdigit s = (s \<noteq> [] \<and> list_all isdigit_char s)"

definition lower_table :: "(char \<times> char) list" where
  "lower_table =
     [(CHR ''A'', CHR ''a''), (CHR ''B'', CHR ''b''), (CHR ''C'', CHR ''c''), (CHR ''D'', CHR ''d''),
      (CHR ''E'', CHR ''e''), (CHR ''F'', CHR ''f''), (CHR ''G'', CHR ''g''), (CHR ''H'', CHR ''h''),
      (CHR ''I'', CHR ''i''), (CHR ''J'', CHR ''j''), (CHR ''K'', CHR ''k''), (CHR ''L'', CHR ''l''),
      (CHR ''M'', CHR ''m''), (CHR ''N'', CHR ''n''), (CHR ''O'', CHR ''o''), (CHR ''P'', CHR ''p''),
      (CHR ''Q'', CHR ''q''), (CHR ''R'', CHR ''r''), (CHR ''S'', CHR ''s''), (CHR ''T'', CHR ''t''),
      (CHR ''U'', CHR ''u''), (CHR ''V'', CHR ''v''), (CHR ''W'', CHR ''w''), (CHR ''X'', CHR ''x''),
      (CHR ''Y'', CHR ''y''), (CHR ''Z'', CHR ''z''), (CHR 0xC0, CHR 0xE0), (CHR 0xC1, CHR 0xE1),
      (CHR 0xC2, CHR 0xE2), (CHR 0xC3, CHR 0xE3), (CHR 0xC4, CHR 0xE4), (CHR 0xC5, CHR 0xE5),
      (CHR 0xC6, CHR 0xE6), (CHR 0xC7, CHR 0xE7), (CHR 0xC8, CHR 0xE8), (CHR 0xC9, CHR 0xE9),
      (CHR 0xCA, CHR 0xEA), (CHR 0xCB, CHR 0xEB), (CHR 0xCC, CHR 0xEC), (CHR 0xCD, CHR 0xED),
      (CHR 0xCE, CHR 0xEE), (CHR 0xCF, CHR 0xEF), (CHR 0xD0, CHR 0xF0), (CHR 0xD1, CHR 0xF1),
      (CHR 0xD2, CHR 0xF2), (CHR 0xD3, CHR 0xF3), (CHR 0xD4, CHR 0xF4), (CHR 0xD5, CHR 0xF5),
      (CHR 0xD6, CHR 0xF6), (CHR 0xD8, CHR 0xF8), (CHR 0xD9, CHR 0xF9), (CHR 0xDA, CHR 0xFA),
      (CHR 0xDB, CHR 0xFB), (CHR 0xDC, CHR 0xFC), (CHR 0xDD, CHR 0xFD), (CHR 0xDE, CHR 0xFE)]"

definition lower_char :: "char \<Rightarrow> char" where
  \<comment> \<open>\<open>str.lower()\<close> on one character; it is also how \<open>re.IGNORECASE\<close> compares\<close>
  "lower_char c = (case map_of lower_table c of None \<Rightarrow> c | Some l \<Rightarrow> l)"

definition lower :: "string \<Rightarrow> string" where
  "lower s = map lower_char s"

definition strip :: "string \<Rightarrow> string" where
  \<comment> \<open>\<open>s.strip()\<close>\<close>
  "strip s = rev (dropWhile is_space (rev (dropWhile is_space s)))"

definition rstrip_chars :: "string \<Rightarrow> string \<Rightarrow> string" where
  \<comment> \<open>\<open>s.rstrip(chars)\<close>\<close>
  "rstrip_chars chars s = rev (dropWhile (\<lambda>c. c \<in> set chars) (rev s))"

definition lstrip_chars :: "string \<Rightarrow> string \<Rightarrow> string" where
  \<comment> \<open>\<open>s.lstrip(chars)\<close>\<close>
  "lstrip_chars chars s = dropWhile (\<lambda>c. c \<in> set chars) s"

fun split_on :: "char \<Rightarrow> string \<Rightarrow> string list" where
  \<comment> \<open>\<open>s.split(sep)\<close> for a separator of one character\<close>
  "split_on sep [] = [[]]"
| "split_on sep (c # cs) =
     (if c = sep then [] # split_on sep cs
      else case split_on sep cs of
             [] \<Rightarrow> [[c]]
           | w # ws \<Rightarrow> (c # w) # ws)"

fun split_ws :: "string \<Rightarrow> string list" where
  \<comment> \<open>\<open>s.split()\<close>: the maximal runs of non-blank characters\<close>
  "split_ws [] = []"
| "split_ws (c # cs) =
     (if is_space c then split_ws cs
      else case cs of
             [] \<Rightarrow> [[c]]
           | d # _ \<Rightarrow> (if is_space d then [c] # split_ws cs
                       else case split_ws cs of [] \<Rightarrow> [[c]] | w # ws \<Rightarrow> (c # w) # ws))"

fun join :: "string \<Rightarrow> string list \<Rightarrow> string" where
  \<comment> \<open>\<open>sep.join(xs)\<close>\<close>
  "join sep [] = []"
| "join sep [x] = x"
| "join sep (x # y # ys) = x @ sep @ join sep (y # ys)"

definition startswith :: "string \<Rightarrow> string \<Rightarrow> bool" where
  "startswith s p = (take (length p) s = p)"

fun contains :: "string \<Rightarrow> string \<Rightarrow> bool" where
  \<comment> \<open>\<open>sub in s\<close> on strings\<close>
  "contains [] sub = (sub = [])"
| "contains (c # cs) sub = (startswith (c # cs) sub \<or> contains cs sub)"

subsection \<open>Documents\<close>

text \<open>
  A document is a parsed JSON value: what \<open>json.load\<close> and a lookup response's
  \<open>.json()\<close> return. \<open>JNull\<close> is \<open>None\<close>, numbers are Python integers, and a
  \<open>dict\<close> is the list of its items in insertion order (its keys are distinct).
\<close>

datatype json =
    JNull
  | JBool bool
  | JInt int
  | JStr string
  | JList "json list"
  | JDict "(string \<times> json) list"

fun truthy :: "json \<Rightarrow> bool" where
  \<comment> \<open>the truth value Python gives a value in \<open>if x\<close>, \<open>not x\<close>, \<open>x or y\<close>\<close>
  "truthy JNull = False"
| "truthy (JBool b) = b"
| "truthy (JInt n) = (n \<noteq> 0)"
| "truthy (JStr s) = (s \<noteq> [])"
| "truthy (JList xs) = (xs \<noteq> [])"
| "truthy (JDict kvs) = (kvs \<noteq> [])"

definition py_or :: "json \<Rightarrow> json \<Rightarrow> json" where
  "py_or a b = (if truthy a then a else b)"

definition dict_has :: "(string \<times> json) list \<Rightarrow> string \<Rightarrow> bool" where
  \<comment> \<open>\<open>key in d\<close>\<close>
  "dict_has d k = (map_of d k \<noteq> None)"

definition dict_get_or :: "(string \<times> json) list \<Rightarrow> string \<Rightarrow> json \<Rightarrow> json" where
  \<comment> \<open>\<open>d.get(key, default)\<close>\<close>
  "dict_get_or d k dflt = (case map_of d k of None \<Rightarrow> dflt | Some v \<Rightarrow> v)"

definition dict_get :: "(string \<times> json) list \<Rightarrow> string \<Rightarrow> json" where
  \<comment> \<open>\<open>d.get(key)\<close>, and \<open>d[key]\<close> where the source has checked the key\<close>
  "dict_get d k = dict_get_or d k JNull"

fun py_eq :: "json \<Rightarrow> json \<Rightarrow> bool" where
  \<comment> \<open>Python's \<open>==\<close>: \<open>True == 1\<close>, and a \<open>dict\<close> compares without regard to order\<close>
  "py_eq JNull y = (y = JNull)"
| "py_eq (JBool a) y =
     (case y of JBool b \<Rightarrow> a = b | JInt n \<Rightarrow> (if a then 1 else 0) = n | _ \<Rightarrow> False)"
| "py_eq (JInt m) y =
     (case y of JBool b \<Rightarrow> m = (if b then 1 else 0) | JInt n \<Rightarrow> m = n | _ \<Rightarrow> False)"
| "py_eq (JStr s) y = (y = JStr s)"
| "py_eq (JList xs) y = (case y of JList ys \<Rightarrow> list_all2 py_eq xs ys | _ \<Rightarrow> False)"
| "py_eq (JDict a) y =
     (case y of
        JDict b \<Rightarrow>
          length a = length b \<and>
          list_all (\<lambda>(k, v). case map_of b k of None \<Rightarrow> False | Some w \<Rightarrow> py_eq v w) a
      | _ \<Rightarrow> False)"

definition py_in :: "json \<Rightarrow> json list \<Rightarrow> bool" where
  \<comment> \<open>\<open>x in xs\<close> on a list\<close>
  "py_in x xs = list_ex (py_eq x) xs"

text \<open>
  \<open>str(x)\<close> and \<open>repr(x)\<close>, which an f-string and \<open>str(person_data['age'])\<close> apply
  to whatever value the document holds.
\<close>

definition hex_digit :: "nat \<Rightarrow> char" where
  "hex_digit n = ''0123456789abcdef'' ! n"

definition is_printable :: "char \<Rightarrow> bool" where
  "is_printable c = (let n = (of_char c :: nat) in (32 \<le> n \<and> n \<le> 126) \<or> (161 \<le> n \<and> n \<noteq> 173))"

definition repr_char :: "char \<Rightarrow> char \<Rightarrow> string" where
  "repr_char quote c =
     (let n = (of_char c :: nat) in
      if c = quote \<or> n = 92 then [CHR 0x5C, c]
      else if n = 9 then [CHR 0x5C, CHR ''t'']
      else if n = 10 then [CHR 0x5C, CHR ''n'']
      else if n = 13 then [CHR 0x5C, CHR ''r'']
      else if is_printable c then [c]
      else [CHR 0x5C, CHR ''x'', hex_digit (n div 16), hex_digit (n mod 16)])"

definition repr_str :: "string \<Rightarrow> string" where
  "repr_str s =
     (let quote = (if CHR 0x27 \<in> set s \<and> CHR 0x22 \<notin> set s then CHR 0x22 else CHR 0x27)
      in [quote] @ concat (map (repr_char quote) s) @ [quote])"

fun str_nat :: "nat \<Rightarrow> string" where
  "str_nat n =
     (if n < 10 then [''0123456789'' ! n]
      else str_nat (n div 10) @ [''0123456789'' ! (n mod 10)])"

definition str_int :: "int \<Rightarrow> string" where
  "str_int i = (if i < 0 then ''-'' @ str_nat (nat (- i)) else str_nat (nat i))"

fun py_repr :: "json \<Rightarrow> string" where
  "py_repr JNull = ''None''"
| "py_repr (JBool b) = (if b then ''True'' else ''False'')"
| "py_repr (JInt n) = str_int n"
| "py_repr (JStr s) = repr_str s"
| "py_repr (JList xs) = ''['' @ join '', '' (map py_repr xs) @ '']''"
| "py_repr (JDict kvs) =
     ''{'' @ join '', '' (map (\<lambda>(k, v). repr_str k @ '': '' @ py_repr v) kvs) @ ''}''"

definition py_str :: "json \<Rightarrow> string" where
  "py_str v = (case v of JStr s \<Rightarrow> s | _ \<Rightarrow> py_repr v)"

text \<open>
  The one exception the modelled code can raise on a document: \<open>TypeError\<close>, from
  \<open>', '.join(parts)\<close> on a part that is not a string and from \<open>in\<close> or a subscript on
  a value that does not support it.
\<close>

datatype py_error = TypeError

section \<open>The regular expressions of \<open>re\<close>\<close>

text \<open>
  The patterns of \<open>parse_address\<close> use literals, character classes, bounded and greedy
  repetition of a class, alternation, an optional group, \<open>\b\<close> and \<open>$\<close>. \<open>rx_match\<close> is
  the backtracking matcher of \<open>re\<close> on that fragment: it tries the alternatives in the
  order \<open>re\<close> does (the longer repetition first, the left alternative first) and hands
  the rest of the string to the continuation \<open>k\<close>; the first success is the match.
  \<open>prev\<close> is the character before the current position, which \<open>\b\<close> needs.
\<close>

datatype rx =
    Chars "char \<Rightarrow> bool"
  | Lit string
  | LitI string
  | Rep nat "char \<Rightarrow> bool"
  | Star "char \<Rightarrow> bool"
  | Seq rx rx
  | Alt rx rx
  | Opt rx
  | WordB
  | EndS

definition at_boundary :: "char option \<Rightarrow> string \<Rightarrow> bool" where
  "at_boundary prev s =
     ((case prev of None \<Rightarrow> False | Some c \<Rightarrow> is_word c)
      \<noteq> (case s of [] \<Rightarrow> False | c # _ \<Rightarrow> is_word c))"

fun lit_match ::
  "(char \<Rightarrow> char \<Rightarrow> bool) \<Rightarrow> string \<Rightarrow> char option \<Rightarrow> string
     \<Rightarrow> (char option \<Rightarrow> string \<Rightarrow> 'a option) \<Rightarrow> 'a option" where
  "lit_match eq [] prev s k = k prev s"
| "lit_match eq (p # ps) prev [] k = None"
| "lit_match eq (p # ps) prev (c # cs) k =
     (if eq p c then lit_match eq ps (Some c) cs k else None)"

fun rep_match ::
  "nat \<Rightarrow> (char \<Rightarrow> bool) \<Rightarrow> char option \<Rightarrow> string
     \<Rightarrow> (char option \<Rightarrow> string \<Rightarrow> 'a option) \<Rightarrow> 'a option" where
  "rep_match 0 P prev s k = k prev s"
| "rep_match (Suc n) P prev [] k = None"
| "rep_match (Suc n) P prev (c # cs) k = (if P c then rep_match n P (Some c) cs k else None)"

fun star_match ::
  "(char \<Rightarrow> bool) \<Rightarrow> char option \<Rightarrow> string \<Rightarrow> (char option \<Rightarrow> string \<Rightarrow> 'a option) \<Rightarrow> 'a option" where
  "star_match P prev [] k = k prev []"
| "star_match P prev (c # cs) k =
     (if P c
      then (case star_match P (Some c) cs k of Some r \<Rightarrow> Some r | None \<Rightarrow> k prev (c # cs))
      else k prev (c # cs))"

fun rx_match ::
  "rx \<Rightarrow> char option \<Rightarrow> string \<Rightarrow> (char option \<Rightarrow> string \<Rightarrow> 'a option) \<Rightarrow> 'a option" where
  "rx_match (Chars P) prev s k =
     (case s of [] \<Rightarrow> None | c # cs \<Rightarrow> if P c then k (Some c) cs else None)"
| "rx_match (Lit w) prev s k = lit_match (\<lambda>p c. c = p) w prev s k"
| "rx_match (LitI w) prev s k = lit_match (\<lambda>p c. lower_char c = lower_char p) w prev s k"
| "rx_match (Rep n P) prev s k = rep_match n P prev s k"
| "rx_match (Star P) prev s k = star_match P prev s k"
| "rx_match (Seq a b) prev s k = rx_match a prev s (\<lambda>prev' s'. rx_match b prev' s' k)"
| "rx_match (Alt a b) prev s k =
     (case rx_match a prev s k of Some r \<Rightarrow> Some r | None \<Rightarrow> rx_match b prev s k)"
| "rx_match (Opt a) prev s k =
     (case rx_match a prev s k of Some r \<Rightarrow> Some r | None \<Rightarrow> k prev s)"
| "rx_match WordB prev s k = (if at_boundary prev s then k prev s else None)"
| "rx_match EndS prev s k = (if s = [] \<or> s = [CHR 0x0A] then k prev s else None)"

text \<open>
  \<open>re.search\<close> returns the leftmost match as its start and end offsets. \<open>re.sub\<close>
  replaces the leftmost matches one after the other; the patterns it is used with here
  match at least one character, so the rule of \<open>re\<close> for empty matches is not modelled
  (an empty match leaves the character in place).
\<close>

fun search_from :: "rx \<Rightarrow> char option \<Rightarrow> string \<Rightarrow> nat \<Rightarrow> (nat \<times> nat) option" where
  "search_from r prev s i =
     (case rx_match r prev s (\<lambda>_ rest. Some rest) of
        Some rest \<Rightarrow> Some (i, i + (length s - length rest))
      | None \<Rightarrow> (case s of [] \<Rightarrow> None | c # cs \<Rightarrow> search_from r (Some c) cs (Suc i)))"

definition re_search :: "rx \<Rightarrow> string \<Rightarrow> (nat \<times> nat) option" where
  "re_search r s = search_from r None s 0"

fun sub_from :: "rx \<Rightarrow> string \<Rightarrow> char option \<Rightarrow> string \<Rightarrow> nat \<Rightarrow> string" where
  "sub_from r repl prev [] skip = []"
| "sub_from r repl prev (c # cs) skip =
     (if 0 < skip then sub_from r repl (Some c) cs (skip - 1)
      else case rx_match r prev (c # cs) (\<lambda>_ rest. Some rest) of
             None \<Rightarrow> c # sub_from r repl (Some c) cs 0
           | Some rest \<Rightarrow>
               (let n = length (c # cs) - length rest in
                if n = 0 then c # sub_from r repl (Some c) cs 0
                else repl @ sub_from r repl (Some c) cs (n - 1)))"

definition re_sub :: "rx \<Rightarrow> string \<Rightarrow> string \<Rightarrow> string" where
  "re_sub r repl s = sub_from r repl None s 0"

section \<open>cache_manager.py\<close>

text \<open>
  \<open>normalize_phone\<close> (lines 45 to 69): the key under which a phone is cached. The
  substitution \<^verbatim>\<open>re.sub(r'[^\d+]', '', phone)\<close> keeps the digits and the plus signs.
\<close>

definition normalize_phone :: "string \<Rightarrow> string" where
  "normalize_phone phone =
     (if phone = [] then []
      else
        let phone_clean = filter (\<lambda>c. is_digit c \<or> c = CHR ''+'') phone in
        if \<not> startswith phone_clean ''+'' then
          (if startswith phone_clean ''1'' \<and> length phone_clean = 11 then ''+'' @ phone_clean
           else if length phone_clean = 10 then ''+1'' @ phone_clean
           else if length phone_clean = 11 then ''+'' @ phone_clean
           else phone_clean)
        else phone_clean)"

text \<open>
  The cache document \<open>cache_data\<close> and the file it is written to. An entry of
  \<open>lookups\<close> is the \<open>dict\<close> that \<open>store_lookup\<close> builds. \<open>cache_file\<close> is the
  document last written under the cache's file name, \<open>None\<close> when the file is absent.
\<close>

record cache_doc =
  cache_version :: string
  last_updated :: string
  lookups :: "string \<rightharpoonup> (string \<times> json) list"

record cache_manager =
  cache_data :: cache_doc
  cache_file :: "cache_doc option"
  cache_hits :: nat
  cache_misses :: nat
  api_calls_saved :: nat

text \<open>
  What the file system does to one \<open>save_cache\<close>: every call succeeds, or writing the
  temporary file raises, or removing the old file raises, or the final rename raises
  (after the old file has been removed).
\<close>

datatype io_outcome = IoOk | IoWriteFails | IoRemoveFails | IoRenameFails

text \<open>
  \<open>save_cache\<close> (lines 106 to 139), \<open>get_cached_lookup\<close> (lines 141 to 174) and
  \<open>store_lookup\<close> (lines 176 to 216) take the manager and return it updated, with the
  value the method returns. The clock and the file system are arguments.
\<close>

definition save_cache :: "string \<Rightarrow> io_outcome \<Rightarrow> cache_manager \<Rightarrow> bool \<times> cache_manager" where
  \<comment> \<open>\<open>now\<close> is what \<open>_get_timestamp()\<close> returns\<close>
  "save_cache now io m =
     (let m1 = m\<lparr>cache_data := (cache_data m)\<lparr>last_updated := now\<rparr>\<rparr> in
      case io of
        IoOk \<Rightarrow> (True, m1\<lparr>cache_file := Some (cache_data m1)\<rparr>)
      | IoWriteFails \<Rightarrow> (False, m1)
      | IoRemoveFails \<Rightarrow> (False, m1)
      | IoRenameFails \<Rightarrow> (False, m1\<lparr>cache_file := None\<rparr>))"

definition get_cached_lookup ::
  "cache_manager \<Rightarrow> string \<Rightarrow> (json \<times> json \<times> json) option \<times> cache_manager" where
  "get_cached_lookup m phone =
     (let normalized_phone = normalize_phone phone in
      if normalized_phone = [] then (None, m)
      else
        case lookups (cache_data m) normalized_phone of
          Some entry \<Rightarrow>
            (Some (dict_get_or entry ''reverse_phone'' (JDict []),
                   dict_get_or entry ''reverse_address'' (JDict []),
                   dict_get_or entry ''ai_analysis'' (JDict [])),
             m\<lparr>cache_hits := cache_hits m + 1, api_calls_saved := api_calls_saved m + 2\<rparr>)
        | None \<Rightarrow> (None, m\<lparr>cache_misses := cache_misses m + 1\<rparr>))"

definition store_lookup ::
  "string \<Rightarrow> string \<Rightarrow> io_outcome \<Rightarrow> cache_manager \<Rightarrow> string \<Rightarrow> json \<Rightarrow> json \<Rightarrow> json
     \<Rightarrow> bool \<times> cache_manager" where
  \<comment> \<open>\<open>now1\<close>, \<open>now2\<close>: the two readings of the clock; \<open>ai_analysis\<close> defaults to \<open>JNull\<close>\<close>
  "store_lookup now1 now2 io m phone reverse_phone_response reverse_address_response ai_analysis =
     (let normalized_phone = normalize_phone phone in
      if normalized_phone = [] then (False, m)
      else if \<not> truthy reverse_phone_response \<and> \<not> truthy reverse_address_response
      then (False, m)
      else
        let cache_entry =
              [(''timestamp'', JStr now1),
               (''reverse_phone'', reverse_phone_response),
               (''reverse_address'', reverse_address_response)]
              @ (if truthy ai_analysis then [(''ai_analysis'', ai_analysis)] else []);
            m1 = m\<lparr>cache_data :=
                    (cache_data m)\<lparr>lookups :=
                       (lookups (cache_data m))(normalized_phone \<mapsto> cache_entry)\<rparr>\<rparr>
        in save_cache now2 io m1)"

section \<open>lead_processor_v2.py\<close>

subsection \<open>\<open>parse_address\<close>\<close>

text \<open>
  The five patterns, in the order the function uses them:
  \<^verbatim>\<open>\s*,?\s*(USA|US|United States|U\.S\.A\.|U\.S\.)$\<close> (ignoring case),
  \<^verbatim>\<open>\s*,\s*\<close>,
  \<^verbatim>\<open>\b(\d{5}(?:-\d{4})?)\b\<close>,
  \<^verbatim>\<open>\b([A-Z]{2})\s*$\<close> and, for each state name,
  \<^verbatim>\<open>\b<name>\b\s*$\<close> (ignoring case).
\<close>

definition country_rx :: rx where
  "country_rx =
     Seq (Star is_space) (Seq (Opt (Lit '','')) (Seq (Star is_space)
       (Seq (Alt (LitI ''USA'') (Alt (LitI ''US'') (Alt (LitI ''United States'')
               (Alt (LitI ''U.S.A.'') (LitI ''U.S.'')))))
            EndS)))"

definition comma_rx :: rx where
  "comma_rx = Seq (Star is_space) (Seq (Lit '','') (Star is_space))"

definition zip_rx :: rx where
  "zip_rx = Seq WordB (Seq (Rep 5 is_digit) (Seq (Opt (Seq (Lit ''-'') (Rep 4 is_digit))) WordB))"

definition state_rx :: rx where
  "state_rx = Seq WordB (Seq (Rep 2 is_upper_az) (Seq (Star is_space) EndS))"

definition state_name_rx :: "string \<Rightarrow> rx" where
  "state_name_rx state_name = Seq WordB (Seq (LitI state_name) (Seq WordB (Seq (Star is_space) EndS)))"

text \<open>
  The result \<open>dict\<close> of \<open>parse_address\<close> (lines 44 to 222); its key \<open>zip\<close> is the field
  \<open>zipcode\<close>. \<open>find_state\<close> is the search for the state before the ZIP code (lines 78
  to 114), in the order of the table \<open>state_names\<close>; \<open>split_street_city\<close> splits what
  stands before the state at its commas (lines 116 to 130) and \<open>split_words\<close> at its
  words when it has no comma (lines 131 to 210). \<open>split\<close> returns at least one part, so
  \<open>parts[0]\<close> is defined where the source reads it. The loop over the secondary
  designators at lines 156 to 161 has an empty body and is left out.
\<close>

record parsed_address =
  street :: string
  city :: string
  state :: string
  zipcode :: string

definition state_names :: "(string \<times> string) list" where
  "state_names =
     [(''alabama'', ''AL''), (''alaska'', ''AK''), (''arizona'', ''AZ''), (''arkansas'', ''AR''),
      (''california'', ''CA''), (''colorado'', ''CO''), (''connecticut'', ''CT''),
      (''delaware'', ''DE''), (''florida'', ''FL''), (''georgia'', ''GA''), (''hawaii'', ''HI''),
      (''idaho'', ''ID''), (''illinois'', ''IL''), (''indiana'', ''IN''), (''iowa'', ''IA''),
      (''kansas'', ''KS''), (''kentucky'', ''KY''), (''louisiana'', ''LA''), (''maine'', ''ME''),
      (''maryland'', ''MD''), (''massachusetts'', ''MA''), (''michigan'', ''MI''),
      (''minnesota'', ''MN''), (''mississippi'', ''MS''), (''missouri'', ''MO''),
      (''montana'', ''MT''), (''nebraska'', ''NE''), (''nevada'', ''NV''),
      (''new hampshire'', ''NH''), (''new jersey'', ''NJ''), (''new mexico'', ''NM''),
      (''new york'', ''NY''), (''north carolina'', ''NC''), (''north dakota'', ''ND''),
      (''ohio'', ''OH''), (''oklahoma'', ''OK''), (''oregon'', ''OR''), (''pennsylvania'', ''PA''),
      (''rhode island'', ''RI''), (''south carolina'', ''SC''), (''south dakota'', ''SD''),
      (''tennessee'', ''TN''), (''texas'', ''TX''), (''utah'', ''UT''), (''vermont'', ''VT''),
      (''virginia'', ''VA''), (''washington'', ''WA''), (''west virginia'', ''WV''),
      (''wisconsin'', ''WI''), (''wyoming'', ''WY'')]"

definition street_suffixes :: "string list" where
  "street_suffixes =
     [''street'', ''st'', ''avenue'', ''ave'', ''road'', ''rd'', ''drive'', ''dr'',
      ''lane'', ''ln'', ''court'', ''ct'', ''circle'', ''cir'', ''boulevard'', ''blvd'',
      ''way'', ''place'', ''pl'', ''parkway'', ''pkwy'', ''trail'', ''terrace'', ''ter'',
      ''highway'', ''hwy'', ''freeway'', ''expressway'', ''loop'', ''path'', ''pike'',
      ''row'', ''run'', ''square'', ''sq'', ''alley'', ''walk'', ''crossing'']"

definition secondary_designators :: "string list" where
  "secondary_designators =
     [''apartment'', ''apt'', ''suite'', ''ste'', ''unit'', ''building'', ''bldg'',
      ''floor'', ''fl'', ''room'', ''rm'', ''#'', ''number'', ''no'']"

fun find_state_name :: "(string \<times> string) list \<Rightarrow> string \<Rightarrow> (string \<times> string) option" where
  "find_state_name [] before_zip = None"
| "find_state_name ((state_name, code) # rest) before_zip =
     (case re_search (state_name_rx state_name) before_zip of
        Some (start, _) \<Rightarrow> Some (code, rstrip_chars '','' (strip (take start before_zip)))
      | None \<Rightarrow> find_state_name rest before_zip)"

definition find_state :: "string \<Rightarrow> (string \<times> string) option" where
  "find_state before_zip =
     (case re_search state_rx before_zip of
        Some (start, _) \<Rightarrow>
          Some (take 2 (drop start before_zip), rstrip_chars '','' (strip (take start before_zip)))
      | None \<Rightarrow> find_state_name state_names before_zip)"

fun find_suffix :: "string list \<Rightarrow> nat \<Rightarrow> nat option" where
  "find_suffix [] i = None"
| "find_suffix (part # rest) i =
     (if rstrip_chars ''.'' (lower part) \<in> set street_suffixes then Some i
      else find_suffix rest (Suc i))"

definition street_end_idx :: "string list \<Rightarrow> nat option" where
  "street_end_idx parts =
     (case find_suffix parts 0 of
        None \<Rightarrow> None
      | Some i \<Rightarrow>
          if i + 1 < length parts
             \<and> rstrip_chars ''.#'' (lower (parts ! (i + 1))) \<in> set secondary_designators
          then (if i + 2 < length parts then Some (i + 3) else Some (i + 2))
          else Some (i + 1))"

definition split_words :: "string \<Rightarrow> string \<Rightarrow> string \<Rightarrow> parsed_address" where
  "split_words before_state state_code zip_code =
     (let parts = split_ws before_state in
      if length parts \<le> 2
      then \<lparr>street = before_state, city = [], state = state_code, zipcode = zip_code\<rparr>
      else
        let n = length parts;
            (street0, city0) =
              (case street_end_idx parts of
                 Some e \<Rightarrow>
                   if e < n then (join '' '' (take e parts), join '' '' (drop e parts))
                   else (join '' '' parts, [])
               | None \<Rightarrow>
                   if isdigit (filter (\<lambda>c. c \<noteq> CHR ''-'') (filter (\<lambda>c. c \<noteq> CHR ''#'') (parts ! 0)))
                   then
                     (if 5 \<le> n then (join '' '' (take (n - 2) parts), join '' '' (drop (n - 2) parts))
                      else if 4 \<le> n
                      then (join '' '' (take (n - 2) parts), join '' '' (drop (n - 2) parts))
                      else (join '' '' (butlast parts), last parts))
                   else
                     (if 4 \<le> n then (join '' '' (take (n - 2) parts), join '' '' (drop (n - 2) parts))
                      else (join '' '' (butlast parts), last parts)))
        in \<lparr>street = strip street0, city = strip city0, state = state_code, zipcode = zip_code\<rparr>)"

definition split_street_city :: "string \<Rightarrow> string \<Rightarrow> string \<Rightarrow> parsed_address" where
  "split_street_city before_state0 state_code zip_code =
     (let before_state = strip (lstrip_chars '','' (rstrip_chars '','' (strip before_state0))) in
      if CHR '','' \<in> set before_state
      then
        let parts = map strip (split_on (CHR '','') before_state) in
        if 2 \<le> length parts
        then \<lparr>street = strip (join '', '' (butlast parts)), city = strip (last parts),
              state = state_code, zipcode = zip_code\<rparr>
        else \<lparr>street = strip (parts ! 0), city = [], state = state_code, zipcode = zip_code\<rparr>
      else split_words before_state state_code zip_code)"

definition parse_address :: "string \<Rightarrow> parsed_address" where
  "parse_address address_str0 =
     (if address_str0 = [] then \<lparr>street = [], city = [], state = [], zipcode = []\<rparr>
      else
        let address_str = re_sub comma_rx '', '' (re_sub country_rx [] (strip address_str0)) in
        (case re_search zip_rx address_str of
          None \<Rightarrow> \<lparr>street = address_str, city = [], state = [], zipcode = []\<rparr>
        | Some zip_match \<Rightarrow>
            (let zip_code = take (snd zip_match - fst zip_match) (drop (fst zip_match) address_str);
                before_zip = rstrip_chars '','' (strip (take (fst zip_match) address_str))
            in
            (case find_state before_zip of
               None \<Rightarrow> \<lparr>street = before_zip, city = [], state = [], zipcode = zip_code\<rparr>
             | Some state_match \<Rightarrow>
                 split_street_city (snd state_match) (fst state_match) zip_code))))"


subsection \<open>\<open>clean_phone\<close>, \<open>extract_age\<close>, \<open>format_address\<close>\<close>

text \<open>
  \<open>clean_phone\<close> (lines 224 to 240) on a string, \<open>extract_age\<close> (lines 373 to 379) and
  \<open>format_address\<close> (lines 390 to 403) on a \<open>dict\<close>. \<open>', '.join(parts)\<close> raises
  \<open>TypeError\<close> when a part is not a string; \<open>str_items\<close> are the parts as strings when
  all of them are.
\<close>

definition clean_phone :: "string \<Rightarrow> string" where
  "clean_phone phone =
     (let phone_clean = filter (\<lambda>c. is_digit c \<or> c = CHR ''+'') (strip phone) in
      if \<not> startswith phone_clean ''+'' then
        (if startswith phone_clean ''1'' \<and> length phone_clean = 11 then ''+'' @ phone_clean
         else if length phone_clean = 10 then ''+1'' @ phone_clean
         else if length phone_clean = 11 \<and> \<not> startswith phone_clean ''1''
         then ''+'' @ phone_clean
         else phone_clean)
      else phone_clean)"

definition extract_age :: "(string \<times> json) list \<Rightarrow> json" where
  "extract_age person_data =
     (if dict_has person_data ''age'' \<and> truthy (dict_get person_data ''age'')
      then JStr (py_str (dict_get person_data ''age''))
      else if dict_has person_data ''age_range'' \<and> truthy (dict_get person_data ''age_range'')
      then dict_get person_data ''age_range''
      else JStr [])"

fun str_items :: "json list \<Rightarrow> py_error + string list" where
  "str_items [] = Inr []"
| "str_items (x # xs) =
     (case x of
        JStr s \<Rightarrow> (case str_items xs of Inl e \<Rightarrow> Inl e | Inr ss \<Rightarrow> Inr (s # ss))
      | _ \<Rightarrow> Inl TypeError)"

definition format_address :: "(string \<times> json) list \<Rightarrow> py_error + string" where
  "format_address address_data =
     (if address_data = [] then Inr []
      else
        let parts = filter truthy (map (dict_get address_data)
                      [''street_line_1'', ''city'', ''state_code'', ''postal_code''])
        in case str_items parts of Inl e \<Rightarrow> Inl e | Inr ss \<Rightarrow> Inr (join '', '' ss))"

section \<open>dialer_gui.py\<close>

subsection \<open>\<open>extract_people_from_data\<close>\<close>

text \<open>
  A \<open>person_info\<close> is the \<open>dict\<close> with the keys \<open>name\<close>, \<open>age\<close>, \<open>phones\<close> and
  \<open>addresses\<close> that \<open>traverse\<close> appends to \<open>people\<close>. The name, the age and the phone
  numbers are whatever values the document holds under the keys read; the addresses are
  strings, since \<open>format_address\<close> returns one or raises.
\<close>

record person_info =
  p_name :: json
  p_age :: json
  p_phones :: "json list"
  p_addresses :: "string list"

text \<open>
  The parts of one call of \<open>traverse\<close> (lines 1815 to 1892) on a non-empty \<open>dict\<close>
  \<open>obj\<close>. \<open>append_new\<close> is \<open>if x not in xs: xs.append(x)\<close>. \<open>list_under obj k\<close> are
  the items a loop guarded by \<open>obj.get(k) and isinstance(obj[k], list)\<close> runs over. The
  three functions \<open>alternate_phone_number\<close>, \<open>phones_number\<close> and
  \<open>phone_numbers_number\<close> give the number that one entry of the list
  \<open>alternate_phones\<close>, \<open>phones\<close> or \<open>phone_numbers\<close> contributes, a falsy value when
  it contributes none, and \<open>add_phones\<close> is one of the three loops (lines 1832 to 1861).
  \<open>extract_phones\<close> runs them and adds the scalar \<open>phone\<close> (lines 1863 to 1865).
  \<open>extract_addresses\<close> is the two loops over \<open>current_addresses\<close> and
  \<open>historical_addresses\<close> (lines 1867 to 1881). \<open>looks_like_person\<close> is the test of
  line 1821, \<open>person_name\<close> the value of line 1822, and \<open>visit\<close> what the call appends
  for \<open>obj\<close> itself before it goes on to the values of \<open>obj\<close>.
\<close>

definition append_new :: "json list \<Rightarrow> json \<Rightarrow> json list" where
  "append_new xs x = (if py_in x xs then xs else xs @ [x])"

definition list_under :: "(string \<times> json) list \<Rightarrow> string \<Rightarrow> json list" where
  "list_under obj k = (case dict_get obj k of JList xs \<Rightarrow> xs | _ \<Rightarrow> [])"

definition alternate_phone_number :: "json \<Rightarrow> json" where
  "alternate_phone_number phone_obj =
     (case phone_obj of JDict d \<Rightarrow> dict_get d ''phoneNumber'' | _ \<Rightarrow> JNull)"

definition phones_number :: "json \<Rightarrow> json" where
  "phones_number phone_obj =
     (case phone_obj of
        JDict d \<Rightarrow>
          py_or (py_or (dict_get d ''phone_number'') (dict_get d ''phoneNumber''))
                (dict_get d ''phone'')
      | JStr s \<Rightarrow> JStr s
      | _ \<Rightarrow> JNull)"

definition phone_numbers_number :: "json \<Rightarrow> json" where
  "phone_numbers_number phone_obj =
     (case phone_obj of
        JDict d \<Rightarrow> py_or (dict_get d ''phone_number'') (dict_get d ''phoneNumber'')
      | JStr s \<Rightarrow> JStr s
      | _ \<Rightarrow> JNull)"

definition add_phones :: "(json \<Rightarrow> json) \<Rightarrow> json list \<Rightarrow> json list \<Rightarrow> json list" where
  "add_phones number phones entries =
     foldl (\<lambda>acc phone_obj.
              let phone_num = number phone_obj
              in if truthy phone_num then append_new acc phone_num else acc)
       phones entries"

definition extract_phones :: "(string \<times> json) list \<Rightarrow> json list" where
  "extract_phones obj =
     (let p1 = add_phones alternate_phone_number [] (list_under obj ''alternate_phones'');
          p2 = add_phones phones_number p1 (list_under obj ''phones'');
          p3 = add_phones phone_numbers_number p2 (list_under obj ''phone_numbers'')
      in if truthy (dict_get obj ''phone'') then append_new p3 (dict_get obj ''phone'') else p3)"

fun add_addresses :: "string list \<Rightarrow> json list \<Rightarrow> py_error + string list" where
  "add_addresses addresses [] = Inr addresses"
| "add_addresses addresses (addr # rest) =
     (case addr of
        JDict d \<Rightarrow>
          (case format_address d of
             Inl e \<Rightarrow> Inl e
           | Inr formatted_addr \<Rightarrow>
               add_addresses
                 (if formatted_addr \<noteq> [] \<and> formatted_addr \<notin> set addresses
                  then addresses @ [formatted_addr] else addresses)
                 rest)
      | _ \<Rightarrow> add_addresses addresses rest)"

definition extract_addresses :: "(string \<times> json) list \<Rightarrow> py_error + string list" where
  "extract_addresses obj =
     (case add_addresses [] (list_under obj ''current_addresses'') of
        Inl e \<Rightarrow> Inl e
      | Inr a1 \<Rightarrow> add_addresses a1 (list_under obj ''historical_addresses''))"

definition looks_like_person :: "(string \<times> json) list \<Rightarrow> bool" where
  "looks_like_person obj =
     (truthy (dict_get obj ''name'') \<or> truthy (dict_get obj ''firstname'')
      \<or> truthy (dict_get obj ''lastname''))"

definition full_name :: "(string \<times> json) list \<Rightarrow> string" where
  "full_name obj =
     strip (py_str (dict_get_or obj ''firstname'' (JStr [])) @ '' ''
            @ py_str (dict_get_or obj ''lastname'' (JStr [])))"

definition person_name :: "(string \<times> json) list \<Rightarrow> json" where
  "person_name obj =
     py_or (dict_get obj ''name'') (JStr (full_name obj))"

definition visit :: "(string \<times> json) list \<Rightarrow> py_error + person_info list" where
  "visit obj =
     (if looks_like_person obj \<and> truthy (person_name obj)
      then
        (case extract_addresses obj of
           Inl e \<Rightarrow> Inl e
         | Inr addrs \<Rightarrow>
             Inr [\<lparr>p_name = person_name obj, p_age = extract_age obj,
                   p_phones = extract_phones obj, p_addresses = addrs\<rparr>])
      else Inr [])"

text \<open>
  \<open>traverse\<close> appends to the list \<open>people\<close> of the enclosing function and an exception
  leaves the whole extraction. The model returns the records a call appends, in order;
  \<open>collect\<close> runs the calls of a loop one after the other and stops at the first
  exception.
\<close>

fun collect :: "(py_error + 'a list) list \<Rightarrow> py_error + 'a list" where
  "collect [] = Inr []"
| "collect (r # rs) =
     (case r of
        Inl e \<Rightarrow> Inl e
      | Inr xs \<Rightarrow> (case collect rs of Inl e \<Rightarrow> Inl e | Inr ys \<Rightarrow> Inr (xs @ ys)))"

fun traverse :: "json \<Rightarrow> py_error + person_info list" where
  "traverse (JDict obj) =
     (if obj = [] then Inr []
      else
        collect
          (visit obj #
           map (\<lambda>(key, v).
                  case v of
                    JDict d \<Rightarrow> traverse v
                  | JList items \<Rightarrow>
                      collect (map (\<lambda>item. case item of JDict d \<Rightarrow> traverse item | _ \<Rightarrow> Inr [])
                                 items)
                  | _ \<Rightarrow> Inr [])
             obj))"
| "traverse _ = Inr []"

definition extract_people_from_data :: "json \<Rightarrow> py_error + person_info list" where
  "extract_people_from_data data =
     (case data of
        JDict d \<Rightarrow> traverse data
      | JList items \<Rightarrow>
          collect (map (\<lambda>item. case item of JDict d \<Rightarrow> traverse item | _ \<Rightarrow> Inr []) items)
      | _ \<Rightarrow> Inr [])"


text \<open>The two inner loops of \<open>traverse\<close>, named.\<close>

definition walk_item :: "json \<Rightarrow> py_error + person_info list" where
  "walk_item item = (case item of JDict d \<Rightarrow> traverse item | _ \<Rightarrow> Inr [])"

definition walk_value :: "json \<Rightarrow> py_error + person_info list" where
  "walk_value v =
     (case v of
        JDict d \<Rightarrow> traverse v
      | JList items \<Rightarrow> collect (map walk_item items)
      | _ \<Rightarrow> Inr [])"

subsection \<open>\<open>process_lookup_data\<close> and the accumulators\<close>

text \<open>
  \<open>contact\<close> is the row of the input sheet (\<open>person\<close>, \<open>original_person\<close>) with the
  three fields read here, \<open>lead_result\<close> the \<open>dict\<close> of one result row (its key
  \<open>notes\<close> is the field \<open>notes_field\<close>), and the state of the accumulators is the list
  \<open>self.current_results\<close>. Saving to the sheet, the display and the analysis that follow
  an accumulation do not change that list and are left out.
\<close>

record contact =
  c_name :: string
  c_phone :: string
  c_address :: string

record lead_result =
  original_address :: string
  original_phone :: string
  blank :: string
  age :: json
  original_name :: string
  new_phones :: "json list"
  new_addresses :: "string list"
  new_name :: json
  status :: string
  notes_field :: string
  address_lookup_failed :: bool

text \<open>
  \<open>process_lookup_data\<close> (lines 1904 to 1983). \<open>address_missed\<close> is the test of line
  1914, \<open>not address_data or 'current_residents' not in address_data or not
  address_data['current_residents']\<close>, on whatever value the document is: \<open>in\<close> looks
  for a key in a \<open>dict\<close>, an item in a list and a substring in a string, and raises on
  the other values, as the subscript does on a list or a string. \<open>merge_first P f\<close> is
  \<open>next((p for p in xs if P), None)\<close> followed by the update \<open>f\<close> of the element found,
  in place. \<open>add_found\<close> is the body of the loops at lines 1920 to 1932 and 1937 to 1949,
  \<open>people_of\<close> the extraction guarded by \<open>if data\<close>, and \<open>no_results\<close> and
  \<open>result_of\<close> are the two result rows of lines 1954 to 1981.
\<close>

definition address_missed :: "json \<Rightarrow> py_error + bool" where
  "address_missed address_data =
     (if \<not> truthy address_data then Inr True
      else
        case address_data of
          JDict d \<Rightarrow>
            Inr (\<not> dict_has d ''current_residents'' \<or> \<not> truthy (dict_get d ''current_residents''))
        | JList xs \<Rightarrow> if py_in (JStr ''current_residents'') xs then Inl TypeError else Inr True
        | JStr s \<Rightarrow> if contains s ''current_residents'' then Inl TypeError else Inr True
        | _ \<Rightarrow> Inl TypeError)"

fun merge_first :: "('a \<Rightarrow> bool) \<Rightarrow> ('a \<Rightarrow> 'a) \<Rightarrow> 'a list \<Rightarrow> 'a list option" where
  "merge_first P f [] = None"
| "merge_first P f (x # xs) =
     (if P x then Some (f x # xs) else map_option ((#) x) (merge_first P f xs))"

definition append_new_str :: "string list \<Rightarrow> string \<Rightarrow> string list" where
  "append_new_str xs x = (if x \<in> set xs then xs else xs @ [x])"

definition add_found :: "person_info list \<Rightarrow> person_info \<Rightarrow> person_info list" where
  "add_found found_people person_info =
     (case merge_first (\<lambda>p. py_eq (p_name p) (p_name person_info))
             (\<lambda>existing.
                existing\<lparr>p_phones := foldl append_new (p_phones existing) (p_phones person_info),
                         p_addresses :=
                           foldl append_new_str (p_addresses existing) (p_addresses person_info)\<rparr>)
             found_people of
        Some merged \<Rightarrow> merged
      | None \<Rightarrow> found_people @ [person_info])"

definition no_results :: "contact \<Rightarrow> bool \<Rightarrow> lead_result" where
  "no_results person failed =
     \<lparr>original_address = c_address person, original_phone = clean_phone (c_phone person),
      blank = [], age = JStr [], original_name = c_name person, new_phones = [],
      new_addresses = [], new_name = JStr ''NO RESULTS FOUND'', status = [], notes_field = [],
      address_lookup_failed = failed\<rparr>"

definition result_of :: "contact \<Rightarrow> bool \<Rightarrow> person_info \<Rightarrow> lead_result" where
  "result_of person failed person_info =
     \<lparr>original_address = c_address person, original_phone = clean_phone (c_phone person),
      blank = [], age = p_age person_info, original_name = c_name person,
      new_phones = p_phones person_info, new_addresses = p_addresses person_info,
      new_name = p_name person_info, status = [], notes_field = [],
      address_lookup_failed = failed\<rparr>"

definition people_of :: "json \<Rightarrow> py_error + person_info list" where
  "people_of data = (if truthy data then extract_people_from_data data else Inr [])"

definition process_lookup_data :: "contact \<Rightarrow> json \<Rightarrow> json \<Rightarrow> py_error + lead_result list" where
  "process_lookup_data person phone_data address_data =
     (case address_missed address_data of
        Inl e \<Rightarrow> Inl e
      | Inr failed \<Rightarrow>
          (case people_of phone_data of
             Inl e \<Rightarrow> Inl e
           | Inr phone_people \<Rightarrow>
               (case people_of address_data of
                  Inl e \<Rightarrow> Inl e
                | Inr address_people \<Rightarrow>
                    (let found_people =
                           foldl add_found (foldl add_found [] phone_people) address_people
                     in Inr (if found_people = [] then [no_results person failed]
                             else map (result_of person failed) found_people)))))"

text \<open>
  \<open>accumulate_phone_results\<close> (lines 1985 to 2025) and \<open>accumulate_address_results\<close>
  (lines 2061 to 2103) on the list \<open>self.current_results\<close>, which they return updated.
  \<open>starts_fresh\<close> is the test of lines 1987 and 2063. The bodies of their loops differ in
  one statement, line 2087, which clears the flag of the result an address record is
  merged into: \<open>accumulate_person\<close> is that body, with \<open>clear_failed\<close> true for the
  address pass.
\<close>

definition merge_result :: "bool \<Rightarrow> person_info \<Rightarrow> lead_result \<Rightarrow> lead_result" where
  "merge_result clear_failed person_info existing_result =
     (let r1 = existing_result
                 \<lparr>new_phones := foldl append_new (new_phones existing_result) (p_phones person_info),
                  new_addresses :=
                    foldl append_new_str (new_addresses existing_result) (p_addresses person_info)\<rparr>;
          r2 = (if truthy (p_age person_info) \<and> \<not> truthy (age r1)
                then r1\<lparr>age := p_age person_info\<rparr> else r1)
      in if clear_failed then r2\<lparr>address_lookup_failed := False\<rparr> else r2)"

definition accumulate_person ::
  "bool \<Rightarrow> contact \<Rightarrow> lead_result list \<Rightarrow> person_info \<Rightarrow> lead_result list" where
  "accumulate_person clear_failed original_person current_results person_info =
     (case merge_first (\<lambda>r. py_eq (new_name r) (p_name person_info))
             (merge_result clear_failed person_info) current_results of
        Some merged \<Rightarrow> merged
      | None \<Rightarrow> current_results @ [result_of original_person False person_info])"

definition starts_fresh :: "lead_result list \<Rightarrow> bool" where
  "starts_fresh current_results =
     (case current_results of
        [] \<Rightarrow> True
      | r # _ \<Rightarrow> py_eq (new_name r) (JStr ''NO RESULTS FOUND''))"

definition accumulate_phone_results ::
  "lead_result list \<Rightarrow> json \<Rightarrow> contact \<Rightarrow> py_error + lead_result list" where
  "accumulate_phone_results current_results phone_data original_person =
     (if starts_fresh current_results then process_lookup_data original_person phone_data JNull
      else
        case people_of phone_data of
          Inl e \<Rightarrow> Inl e
        | Inr phone_people \<Rightarrow>
            Inr (foldl (accumulate_person False original_person) current_results phone_people))"

definition accumulate_address_results ::
  "lead_result list \<Rightarrow> json \<Rightarrow> contact \<Rightarrow> py_error + lead_result list" where
  "accumulate_address_results current_results address_data original_person =
     (if starts_fresh current_results then process_lookup_data original_person JNull address_data
      else
        case people_of address_data of
          Inl e \<Rightarrow> Inl e
        | Inr address_people \<Rightarrow>
            Inr (foldl (accumulate_person True original_person) current_results address_people))"

subsection \<open>The phones of an owner in \<open>process_row\<close>\<close>

text \<open>
  \<open>process_row\<close> of \<open>lead_processor_v2.py\<close> reads the same phone document as
  \<open>extract_people_from_data\<close> and fills \<open>person_info['phones']\<close> of each owner (lines 495
  to 515): the document's own \<open>phone_number\<close> when the key is there, then the entries of
  \<open>owner.get('alternate_phones', []) or []\<close>. \<open>iterate\<close> is what a \<open>for\<close> loop runs over: the
  items of a list, the characters of a string, the keys of a \<open>dict\<close>, and a \<open>TypeError\<close>
  on a number, a truth value or \<open>None\<close>. \<open>alt_phone_number\<close> is \<open>phone_num\<close> of lines 506 to
  512.
\<close>

definition iterate :: "json \<Rightarrow> py_error + json list" where
  "iterate v =
     (case v of
        JList xs \<Rightarrow> Inr xs
      | JStr s \<Rightarrow> Inr (map (\<lambda>c. JStr [c]) s)
      | JDict d \<Rightarrow> Inr (map (\<lambda>kv. JStr (fst kv)) d)
      | _ \<Rightarrow> Inl TypeError)"

definition alt_phone_number :: "json \<Rightarrow> json" where
  "alt_phone_number alt_phone =
     (case alt_phone of
        JDict d \<Rightarrow>
          py_or (py_or (dict_get d ''phone_number'') (dict_get d ''phoneNumber''))
                (dict_get d ''phone'')
      | JStr s \<Rightarrow> JStr s
      | _ \<Rightarrow> JNull)"

definition owner_phones ::
  "(string \<times> json) list \<Rightarrow> (string \<times> json) list \<Rightarrow> py_error + json list" where
  "owner_phones phone_data owner =
     (let phones = (if dict_has phone_data ''phone_number''
                    then [dict_get phone_data ''phone_number''] else [])
      in case iterate (py_or (dict_get_or owner ''alternate_phones'' (JList [])) (JList [])) of
           Inl e \<Rightarrow> Inl e
         | Inr alt_phones \<Rightarrow> Inr (add_phones alt_phone_number phones alt_phones))"


section \<open>Notions the claims are stated with\<close>

text \<open>
  \<open>inside data n\<close>: the value \<open>n\<close> occurs in \<open>data\<close> under any nesting of \<open>dict\<close>s and
  lists. \<open>walks data n\<close>: the \<open>dict\<close> \<open>n\<close> is the document itself, an item of the list
  the document is, or the value of a key, or an item of a list that is the value of a
  key, of a \<open>dict\<close> that \<open>walks\<close> reaches.
\<close>

inductive inside :: "json \<Rightarrow> json \<Rightarrow> bool" where
  inside_self: "inside x x"
| inside_dict: "(k, v) \<in> set kvs \<Longrightarrow> inside v y \<Longrightarrow> inside (JDict kvs) y"
| inside_list: "v \<in> set xs \<Longrightarrow> inside v y \<Longrightarrow> inside (JList xs) y"

inductive walks :: "json \<Rightarrow> json \<Rightarrow> bool" where
  walks_root: "walks (JDict d) (JDict d)"
| walks_top_item: "JDict d \<in> set items \<Longrightarrow> walks (JList items) (JDict d)"
| walks_value: "walks data (JDict obj) \<Longrightarrow> (k, JDict d) \<in> set obj \<Longrightarrow> walks data (JDict d)"
| walks_item:
    "walks data (JDict obj) \<Longrightarrow> (k, JList items) \<in> set obj \<Longrightarrow> JDict d \<in> set items
       \<Longrightarrow> walks data (JDict d)"

text \<open>
  The phone numbers the four loops of \<open>traverse\<close> take from a person \<open>dict\<close>, in the
  order they meet them: the truthy \<open>phoneNumber\<close> of each \<open>dict\<close> in \<open>alternate_phones\<close>
  (no other entry of that list is read); for each
  entry of \<open>phones\<close> the first truthy of \<open>phone_number\<close>, \<open>phoneNumber\<close>, \<open>phone\<close>, or
  the entry itself when it is a non-empty string; the same for \<open>phone_numbers\<close> with
  \<open>phone_number\<close> and \<open>phoneNumber\<close>; and the scalar \<open>phone\<close>. \<open>py_distinct\<close>: no
  element of the list equals (\<open>==\<close>) an earlier one.
\<close>

definition phone_candidates :: "(string \<times> json) list \<Rightarrow> json list" where
  "phone_candidates obj =
     filter truthy (map alternate_phone_number (list_under obj ''alternate_phones''))
     @ filter truthy (map phones_number (list_under obj ''phones''))
     @ filter truthy (map phone_numbers_number (list_under obj ''phone_numbers''))
     @ filter truthy [dict_get obj ''phone'']"

definition py_distinct :: "json list \<Rightarrow> bool" where
  "py_distinct xs = (\<forall>j < length xs. \<forall>i < j. \<not> py_eq (xs ! j) (xs ! i))"

text \<open>
  A result is the sentinel when its \<open>new_name\<close> is the reserved string, which is the test
  the accumulators and every reader of the list apply. \<open>reachable D\<close> are the values of
  \<open>self.current_results\<close>: the empty list it starts as, a list \<open>process_lookup_data\<close>
  returned, and what an accumulator makes of a reachable list, for documents in \<open>D\<close>.
  \<open>plain_document\<close>: no person extracted from the document is named by the reserved
  string.
\<close>

definition is_sentinel :: "lead_result \<Rightarrow> bool" where
  "is_sentinel r = (new_name r = JStr ''NO RESULTS FOUND'')"

definition sentinel_alone :: "lead_result list \<Rightarrow> bool" where
  "sentinel_alone rs = (\<forall>r \<in> set rs. is_sentinel r \<longrightarrow> rs = [r])"

definition any_document :: "json \<Rightarrow> bool" where
  "any_document data = True"

definition plain_document :: "json \<Rightarrow> bool" where
  "plain_document data =
     (case people_of data of
        Inl e \<Rightarrow> True
      | Inr people \<Rightarrow> \<not> list_ex (\<lambda>p. p_name p = JStr ''NO RESULTS FOUND'') people)"

inductive reachable :: "(json \<Rightarrow> bool) \<Rightarrow> lead_result list \<Rightarrow> bool" for D where
  reach_init: "reachable D []"
| reach_lookup:
    "D phone_data \<Longrightarrow> D address_data
       \<Longrightarrow> process_lookup_data person phone_data address_data = Inr rs \<Longrightarrow> reachable D rs"
| reach_phone:
    "reachable D rs \<Longrightarrow> D phone_data
       \<Longrightarrow> accumulate_phone_results rs phone_data person = Inr rs' \<Longrightarrow> reachable D rs'"
| reach_address:
    "reachable D rs \<Longrightarrow> D address_data
       \<Longrightarrow> accumulate_address_results rs address_data person = Inr rs' \<Longrightarrow> reachable D rs'"




section \<open>Properties of the phone key\<close>


lemma normalize_phone_fixed:
  assumes "\<forall>c \<in> set s. is_digit c \<or> c = CHR ''+''"
    and "startswith s ''+'' \<or> (length s \<noteq> 10 \<and> length s \<noteq> 11)"
  shows "normalize_phone s = s"
proof -
  have "filter (\<lambda>c. is_digit c \<or> c = CHR ''+'') s = s"
    using assms(1) by (simp add: filter_id_conv)
  then show ?thesis
    using assms(2) by (auto simp: normalize_phone_def Let_def startswith_def)
qed

text \<open>
  C3. Phone normalization is idempotent on every input string:
  normalizing a normalized key returns it unchanged.
\<close>

theorem normalize_phone_idempotent:
  "normalize_phone (normalize_phone x) = normalize_phone x"
proof (cases "x = []")
  case True
  then show ?thesis by (simp add: normalize_phone_def)
next
  case False
  define c where "c = filter (\<lambda>c. is_digit c \<or> c = CHR ''+'') x"
  have cs: "\<forall>a \<in> set c. is_digit a \<or> a = CHR ''+''"
    by (auto simp: c_def)
  have plus: "is_digit (CHR ''1'') \<or> CHR ''1'' = CHR ''+''"
    by (simp add: is_digit_def)
  consider (a) "startswith c ''+''"
    | (b) "\<not> startswith c ''+''" "length c = 10 \<or> length c = 11"
    | (c) "\<not> startswith c ''+''" "length c \<noteq> 10" "length c \<noteq> 11"
    by blast
  then show ?thesis
  proof cases
    case a
    then have "normalize_phone x = c"
      using False by (simp add: normalize_phone_def c_def)
    moreover have "normalize_phone c = c"
      using cs a by (intro normalize_phone_fixed) auto
    ultimately show ?thesis by simp
  next
    case b
    then have "normalize_phone x = ''+'' @ c \<or> normalize_phone x = ''+1'' @ c"
      using False by (auto simp: normalize_phone_def c_def Let_def)
    moreover have "normalize_phone (''+'' @ c) = ''+'' @ c"
      using cs by (intro normalize_phone_fixed) (auto simp: startswith_def)
    moreover have "normalize_phone (''+1'' @ c) = ''+1'' @ c"
      using cs plus by (intro normalize_phone_fixed) (auto simp: startswith_def)
    ultimately show ?thesis by auto
  next
    case c
    then have "normalize_phone x = c"
      using False by (auto simp: normalize_phone_def c_def Let_def)
    moreover have "normalize_phone c = c"
      using cs c by (intro normalize_phone_fixed) auto
    ultimately show ?thesis by simp
  qed
qed

section \<open>Properties of the lookup cache\<close>

lemma lookups_save_cache:
  "lookups (cache_data (snd (save_cache now io m))) = lookups (cache_data m)"
  by (cases io) (simp_all add: save_cache_def)

text \<open>
  C1, as the claim states it, at a concrete key and pair of documents: the third
  component that \<open>get_cached_lookup\<close> returns after \<open>store_lookup\<close> without an analysis
  is the empty \<open>dict\<close>, the default of \<open>entry.get('ai_analysis', {})\<close>, and not \<open>None\<close>.
\<close>

theorem put_get_not_None:
  "normalize_phone ''+14155551234'' \<noteq> [] \<and>
   truthy (JDict [(''id'', JStr ''test1'')]) \<and>
   fst (get_cached_lookup
         (snd (store_lookup ''t1'' ''t2'' IoOk
                 \<lparr>cache_data = \<lparr>cache_version = ''1.0'', last_updated = ''t0'', lookups = Map.empty\<rparr>,
                  cache_file = None, cache_hits = 0, cache_misses = 0, api_calls_saved = 0\<rparr>
                 ''+14155551234'' (JDict [(''id'', JStr ''test1'')]) (JDict []) JNull))
         ''+14155551234'')
     \<noteq> Some (JDict [(''id'', JStr ''test1'')], JDict [], JNull)"
  by (simp add: get_cached_lookup_def store_lookup_def save_cache_def normalize_phone_def
      startswith_def is_digit_def dict_get_or_def Let_def)

text \<open>
  C1, amended. For every phone key \<open>p\<close> that normalizes to a non-empty string and every
  pair of documents \<open>A\<close>, \<open>B\<close> of which at least one is non-empty, \<open>store_lookup\<close> of
  \<open>p\<close>, \<open>A\<close>, \<open>B\<close> with no derived analysis followed by \<open>get_cached_lookup\<close> of \<open>p\<close>
  returns the triple of \<open>A\<close>, \<open>B\<close> unchanged and the empty \<open>dict\<close> for the absent
  analysis, whatever the clock reads and whether or not the write to disk succeeds.
\<close>

theorem put_get_roundtrip:
  assumes "normalize_phone p \<noteq> []" and "truthy A \<or> truthy B"
  shows "fst (get_cached_lookup (snd (store_lookup now1 now2 io m p A B JNull)) p)
           = Some (A, B, JDict [])"
proof -
  let ?k = "normalize_phone p"
  let ?e = "[(''timestamp'', JStr now1), (''reverse_phone'', A), (''reverse_address'', B)]"
  let ?m1 = "m\<lparr>cache_data := (cache_data m)\<lparr>lookups := (lookups (cache_data m))(?k \<mapsto> ?e)\<rparr>\<rparr>"
  have st: "store_lookup now1 now2 io m p A B JNull = save_cache now2 io ?m1"
    using assms by (auto simp: store_lookup_def Let_def)
  have "lookups (cache_data (snd (save_cache now2 io ?m1))) ?k = Some ?e"
    by (simp add: lookups_save_cache)
  then show ?thesis
    using assms(1) by (simp add: st get_cached_lookup_def Let_def dict_get_or_def)
qed

theorem put_get_roundtrip_witness:
  "fst (get_cached_lookup
         (snd (store_lookup ''t1'' ''t2'' IoRenameFails
                 \<lparr>cache_data = \<lparr>cache_version = ''1.0'', last_updated = ''t0'', lookups = Map.empty\<rparr>,
                  cache_file = None, cache_hits = 0, cache_misses = 0, api_calls_saved = 0\<rparr>
                 ''(415) 555-1234'' (JDict []) (JDict [(''current_residents'', JList [])]) JNull))
         ''(415) 555-1234'')
     = Some (JDict [], JDict [(''current_residents'', JList [])], JDict [])"
proof -
  have k: "normalize_phone ''(415) 555-1234'' \<noteq> []"
    by (simp add: normalize_phone_def startswith_def is_digit_def)
  have d: "truthy (JDict []) \<or> truthy (JDict [(''current_residents'', JList [])])"
    by simp
  show ?thesis
    by (rule put_get_roundtrip [OF k d])
qed

text \<open>
  C4. For every phone key, \<open>store_lookup\<close> with two empty or falsy response documents
  returns \<open>False\<close> and changes nothing: the cache document in memory (its \<open>lookups\<close>
  map in particular), the file on disk and the counters are the ones before the call.
\<close>

theorem store_lookup_empty_noop:
  assumes "\<not> truthy rp" and "\<not> truthy ra"
  shows "store_lookup now1 now2 io m phone rp ra ai = (False, m)"
  using assms by (simp add: store_lookup_def Let_def)

theorem store_lookup_empty_noop_witness:
  "store_lookup ''t1'' ''t2'' IoOk
     \<lparr>cache_data = \<lparr>cache_version = ''1.0'', last_updated = ''t0'', lookups = Map.empty\<rparr>,
      cache_file = None, cache_hits = 0, cache_misses = 0, api_calls_saved = 0\<rparr>
     ''+14155551234'' (JDict []) (JDict []) JNull
   = (False,
      \<lparr>cache_data = \<lparr>cache_version = ''1.0'', last_updated = ''t0'', lookups = Map.empty\<rparr>,
       cache_file = None, cache_hits = 0, cache_misses = 0, api_calls_saved = 0\<rparr>)"
proof -
  have e: "\<not> truthy (JDict [])" by simp
  show ?thesis
    by (rule store_lookup_empty_noop [OF e e])
qed

text \<open>
  C9. For every phone string that normalizes to the empty string, \<open>store_lookup\<close>
  returns \<open>False\<close> whatever the response documents are, and the cache document in
  memory, the file on disk and the counters are left as they were: no entry is created
  under the empty key. Indeed no call of \<open>store_lookup\<close>, whatever the phone, changes
  what the \<open>lookups\<close> map holds under the empty key.
\<close>

theorem store_lookup_empty_key_noop:
  "(normalize_phone phone = [] \<longrightarrow> store_lookup now1 now2 io m phone rp ra ai = (False, m)) \<and>
   lookups (cache_data (snd (store_lookup now1 now2 io m phone rp ra ai))) []
     = lookups (cache_data m) []"
  by (simp add: store_lookup_def Let_def lookups_save_cache)

theorem store_lookup_empty_key_noop_witness:
  "store_lookup ''t1'' ''t2'' IoOk
     \<lparr>cache_data = \<lparr>cache_version = ''1.0'', last_updated = ''t0'', lookups = Map.empty\<rparr>,
      cache_file = None, cache_hits = 0, cache_misses = 0, api_calls_saved = 0\<rparr>
     ''n/a'' (JDict [(''owners'', JList [JStr ''x''])]) (JDict []) JNull
   = (False,
      \<lparr>cache_data = \<lparr>cache_version = ''1.0'', last_updated = ''t0'', lookups = Map.empty\<rparr>,
       cache_file = None, cache_hits = 0, cache_misses = 0, api_calls_saved = 0\<rparr>)"
proof -
  have k: "normalize_phone ''n/a'' = []"
    by (simp add: normalize_phone_def startswith_def is_digit_def)
  show ?thesis
    using store_lookup_empty_key_noop
            [of "''n/a''" "''t1''" "''t2''" IoOk _ "JDict [(''owners'', JList [JStr ''x''])]"
               "JDict []" JNull] k
    by blast
qed

section \<open>Properties of the address parser\<close>

text \<open>
  C8. \<open>parse_address\<close> applied to the string "1234 Main Street, Austin, TX 78701"
  returns the street "1234 Main Street", the city "Austin", the state "TX" and the ZIP
  code "78701".
\<close>

theorem parse_address_example:
  "parse_address ''1234 Main Street, Austin, TX 78701''
     = \<lparr>street = ''1234 Main Street'', city = ''Austin'', state = ''TX'', zipcode = ''78701''\<rparr>"
  by code_simp

section \<open>Properties of the extractor\<close>

lemma collect_Inr:
  "collect rs = Inr ps \<Longrightarrow> r \<in> set rs \<Longrightarrow> \<exists>qs. r = Inr qs \<and> set qs \<subseteq> set ps"
proof (induction rs arbitrary: ps)
  case Nil
  then show ?case by simp
next
  case (Cons a rs)
  from Cons.prems(1) obtain xs ys where a: "a = Inr xs" and ys: "collect rs = Inr ys"
    and ps: "ps = xs @ ys"
    by (auto split: sum.splits)
  show ?case
  proof (cases "r = a")
    case True
    then show ?thesis using a ps by simp
  next
    case False
    then have "r \<in> set rs" using Cons.prems(2) by simp
    from Cons.IH [OF ys this] show ?thesis using ps by auto
  qed
qed

lemma collect_mem:
  "collect rs = Inr ps \<Longrightarrow> p \<in> set ps \<Longrightarrow> \<exists>qs. Inr qs \<in> set rs \<and> p \<in> set qs"
proof (induction rs arbitrary: ps)
  case Nil
  then show ?case by simp
next
  case (Cons a rs)
  from Cons.prems(1) obtain xs ys where a: "a = Inr xs" and ys: "collect rs = Inr ys"
    and ps: "ps = xs @ ys"
    by (auto split: sum.splits)
  show ?case
  proof (cases "p \<in> set xs")
    case True
    then show ?thesis using a by auto
  next
    case False
    then have "p \<in> set ys" using Cons.prems(2) ps by simp
    from Cons.IH [OF ys this] show ?thesis by auto
  qed
qed

lemma walk_item_fun:
  "(\<lambda>item. case item of JDict d \<Rightarrow> traverse item | _ \<Rightarrow> Inr []) = walk_item"
  by (simp add: walk_item_def fun_eq_iff)

lemma walk_value_fun:
  "(\<lambda>(key, v). case v of
                    JDict d \<Rightarrow> traverse v
                  | JList items \<Rightarrow>
                      collect (map (\<lambda>item. case item of JDict d \<Rightarrow> traverse item | _ \<Rightarrow> Inr [])
                                 items)
                  | _ \<Rightarrow> Inr []) = (\<lambda>kv. walk_value (snd kv))"
  unfolding walk_item_fun by (auto simp: walk_value_def fun_eq_iff split: json.splits)

lemma traverse_dict:
  "traverse (JDict obj) =
     (if obj = [] then Inr [] else collect (visit obj # map (\<lambda>kv. walk_value (snd kv)) obj))"
  by (simp only: traverse.simps(1) walk_value_fun)

declare traverse.simps(1) [simp del]

lemma extract_walk_value: "extract_people_from_data data = walk_value data"
  unfolding extract_people_from_data_def walk_value_def walk_item_fun ..

lemma walk_value_item:
  assumes "walk_value (JList items) = Inr ps" and "JDict d \<in> set items"
  shows "\<exists>qs. traverse (JDict d) = Inr qs \<and> set qs \<subseteq> set ps"
proof -
  have c: "collect (map walk_item items) = Inr ps"
    using assms(1) by (simp add: walk_value_def)
  have "walk_item (JDict d) \<in> set (map walk_item items)"
    using assms(2) by simp
  from collect_Inr [OF c this] show ?thesis
    by (simp add: walk_item_def)
qed

lemma traverse_child:
  assumes "traverse (JDict obj) = Inr ps" and "(k, v) \<in> set obj"
  shows "\<exists>qs. walk_value v = Inr qs \<and> set qs \<subseteq> set ps"
proof -
  have ne: "obj \<noteq> []" using assms(2) by auto
  have c: "collect (visit obj # map (\<lambda>kv. walk_value (snd kv)) obj) = Inr ps"
    using assms(1) ne by (simp add: traverse_dict)
  have "walk_value (snd (k, v)) \<in> set (visit obj # map (\<lambda>kv. walk_value (snd kv)) obj)"
    using assms(2) by (simp add: image_iff del: snd_conv) blast
  from collect_Inr [OF c this] show ?thesis by simp
qed

lemma traverse_visit:
  assumes "traverse (JDict obj) = Inr ps" and "obj \<noteq> []"
  shows "\<exists>qs. visit obj = Inr qs \<and> set qs \<subseteq> set ps"
proof -
  have c: "collect (visit obj # map (\<lambda>kv. walk_value (snd kv)) obj) = Inr ps"
    using assms by (simp add: traverse_dict)
  have "visit obj \<in> set (visit obj # map (\<lambda>kv. walk_value (snd kv)) obj)"
    by simp
  from collect_Inr [OF c this] show ?thesis by simp
qed

lemma walks_traverse:
  assumes "walks data n" and "extract_people_from_data data = Inr people"
  shows "\<exists>qs. traverse n = Inr qs \<and> set qs \<subseteq> set people"
  using assms
proof (induction rule: walks.induct)
  case (walks_root d)
  then show ?case by (simp add: extract_walk_value walk_value_def)
next
  case (walks_top_item d items)
  then show ?case
    using walk_value_item [of items people d] by (simp add: extract_walk_value)
next
  case (walks_value data obj k d)
  then obtain qs where qs: "traverse (JDict obj) = Inr qs" "set qs \<subseteq> set people"
    by blast
  from traverse_child [OF qs(1) walks_value.hyps(2)]
  obtain qs' where "walk_value (JDict d) = Inr qs'" "set qs' \<subseteq> set qs"
    by blast
  then show ?case using qs(2) by (auto simp: walk_value_def)
next
  case (walks_item data obj k items d)
  then obtain qs where qs: "traverse (JDict obj) = Inr qs" "set qs \<subseteq> set people"
    by blast
  from traverse_child [OF qs(1) walks_item.hyps(2)]
  obtain qs' where q': "walk_value (JList items) = Inr qs'" "set qs' \<subseteq> set qs"
    by blast
  from walk_value_item [OF q'(1) walks_item.hyps(3)] show ?case
    using q'(2) qs(2) by blast
qed

lemma looks_like_person_nonempty: "looks_like_person obj \<Longrightarrow> obj \<noteq> []"
  by (auto simp: looks_like_person_def dict_get_def dict_get_or_def)

lemma walks_step_value:
  assumes "walks r n" and "r = JDict d" and "(k, JDict d) \<in> set obj"
  shows "walks (JDict obj) n"
  using assms
proof (induction rule: walks.induct)
  case (walks_root d')
  then show ?case
    using walks.walks_value [OF walks.walks_root, of k d obj] by simp
next
  case (walks_top_item d' items)
  then show ?case by simp
next
  case (walks_value data obj' k' d')
  then show ?case by (blast intro: walks.walks_value)
next
  case (walks_item data obj' k' items d')
  then show ?case by (blast intro: walks.walks_item)
qed

lemma walks_step_item:
  assumes "walks r n" and "r = JDict d" and "(k, JList items) \<in> set obj" and "JDict d \<in> set items"
  shows "walks (JDict obj) n"
  using assms
proof (induction rule: walks.induct)
  case (walks_root d')
  then show ?case
    using walks.walks_item [OF walks.walks_root, of k items obj d] by simp
next
  case (walks_top_item d' items')
  then show ?case by simp
next
  case (walks_value data obj' k' d')
  then show ?case by (blast intro: walks.walks_value)
next
  case (walks_item data obj' k' items' d')
  then show ?case by (blast intro: walks.walks_item)
qed

lemma walks_step_top:
  assumes "walks r n" and "r = JDict d" and "JDict d \<in> set items"
  shows "walks (JList items) n"
  using assms
proof (induction rule: walks.induct)
  case (walks_root d')
  then show ?case
    using walks.walks_top_item [of d items] by simp
next
  case (walks_top_item d' items')
  then show ?case by simp
next
  case (walks_value data obj' k' d')
  then show ?case by (blast intro: walks.walks_value)
next
  case (walks_item data obj' k' items' d')
  then show ?case by (blast intro: walks.walks_item)
qed

lemma visit_cases: "visit obj = Inr qs \<Longrightarrow> p \<in> set qs \<Longrightarrow> qs = [p]"
  by (auto simp: visit_def split: if_splits sum.splits)

lemma walk_items_origin:
  assumes c: "collect (map walk_item items) = Inr qs" and p: "p \<in> set qs"
    and IH: "\<And>d ps. JDict d \<in> set items \<Longrightarrow> traverse (JDict d) = Inr ps \<Longrightarrow> p \<in> set ps
                \<Longrightarrow> \<exists>n. walks (JDict d) (JDict n) \<and> visit n = Inr [p]"
  shows "\<exists>d n. JDict d \<in> set items \<and> walks (JDict d) (JDict n) \<and> visit n = Inr [p]"
proof -
  from collect_mem [OF c p] obtain qs' where q: "Inr qs' \<in> set (map walk_item items)" "p \<in> set qs'"
    by blast
  then obtain item where item: "item \<in> set items" "walk_item item = Inr qs'"
    by auto
  from item(2) q(2) obtain d where d: "item = JDict d"
    by (cases item) (auto simp: walk_item_def)
  then have "traverse (JDict d) = Inr qs'"
    using item(2) by (simp add: walk_item_def)
  from IH [OF _ this q(2)] item(1) d show ?thesis by blast
qed

lemma traverse_origin:
  "traverse x = Inr ps \<Longrightarrow> p \<in> set ps \<Longrightarrow> \<exists>n. walks x (JDict n) \<and> visit n = Inr [p]"
proof (induction x arbitrary: ps rule: traverse.induct)
  case (1 obj)
  have ne: "obj \<noteq> []"
    using "1.prems" by (auto simp: traverse_dict split: if_splits)
  have c: "collect (visit obj # map (\<lambda>kv. walk_value (snd kv)) obj) = Inr ps"
    using "1.prems"(1) ne by (simp add: traverse_dict)
  from collect_mem [OF c "1.prems"(2)] obtain qs
    where qs: "Inr qs \<in> set (visit obj # map (\<lambda>kv. walk_value (snd kv)) obj)" "p \<in> set qs"
    by blast
  show ?case
  proof (cases "visit obj = Inr qs")
    case True
    then have "visit obj = Inr [p]" using visit_cases qs(2) by blast
    then show ?thesis using walks_root by blast
  next
    case False
    then obtain k v where kv: "(k, v) \<in> set obj" "walk_value v = Inr qs"
      using qs(1) by auto
    show ?thesis
    proof (cases v)
      case (JDict d)
      then have "traverse v = Inr qs" using kv(2) by (simp add: walk_value_def)
      from "1.IH"(2) [OF ne kv(1) refl JDict this qs(2)]
      obtain n where "walks v (JDict n)" "visit n = Inr [p]" by blast
      then show ?thesis
        using walks_step_value [of v "JDict n" d k obj] kv(1) JDict by blast
    next
      case (JList items)
      then have ci: "collect (map walk_item items) = Inr qs"
        using kv(2) by (simp add: walk_value_def)
      have "\<exists>d n. JDict d \<in> set items \<and> walks (JDict d) (JDict n) \<and> visit n = Inr [p]"
      proof (rule walk_items_origin [OF ci qs(2)])
        fix d ps'
        assume "JDict d \<in> set items" "traverse (JDict d) = Inr ps'" "p \<in> set ps'"
        then show "\<exists>n. walks (JDict d) (JDict n) \<and> visit n = Inr [p]"
          using "1.IH"(1) [OF ne kv(1) refl JList] by blast
      qed
      then obtain d n where dn: "JDict d \<in> set items" "walks (JDict d) (JDict n)" "visit n = Inr [p]"
        by blast
      then show ?thesis
        using walks_step_item [of "JDict d" "JDict n" d k items obj] kv(1) JList by blast
    qed (use kv(2) qs(2) in \<open>auto simp: walk_value_def\<close>)
  qed
qed simp_all

lemma extract_origin:
  assumes "extract_people_from_data data = Inr people" and "p \<in> set people"
  shows "\<exists>n. walks data (JDict n) \<and> visit n = Inr [p]"
proof (cases data)
  case (JDict d)
  then show ?thesis
    using assms traverse_origin [of data people p]
    by (simp add: extract_walk_value walk_value_def)
next
  case (JList items)
  then have ci: "collect (map walk_item items) = Inr people"
    using assms(1) by (simp add: extract_walk_value walk_value_def)
  have "\<exists>d n. JDict d \<in> set items \<and> walks (JDict d) (JDict n) \<and> visit n = Inr [p]"
    by (rule walk_items_origin [OF ci assms(2)]) (use traverse_origin in blast)
  then show ?thesis
    using walks_step_top JList by blast
qed (use assms in \<open>auto simp: extract_walk_value walk_value_def\<close>)

lemma collect_returns_iff:
  "(\<exists>ps. collect rs = Inr ps) \<longleftrightarrow> (\<forall>r \<in> set rs. \<exists>qs. r = Inr qs)"
proof (induction rs)
  case Nil
  then show ?case by simp
next
  case (Cons a rs)
  then show ?case
    by (cases a; cases "collect rs") auto
qed

lemma traverse_returns:
  "(\<And>obj. walks x (JDict obj) \<Longrightarrow> \<exists>ps. visit obj = Inr ps) \<Longrightarrow> \<exists>people. traverse x = Inr people"
proof (induction x rule: traverse.induct)
  case (1 obj)
  show ?case
  proof (cases "obj = []")
    case True
    then show ?thesis by (simp add: traverse_dict)
  next
    case False
    have v: "\<exists>qs. visit obj = Inr qs"
      using "1.prems" walks_root by blast
    have c: "\<exists>qs. walk_value (snd kv) = Inr qs" if kv: "kv \<in> set obj" for kv
    proof (cases "snd kv")
      case (JDict d)
      have "\<exists>people. traverse (snd kv) = Inr people"
      proof (rule "1.IH"(2) [OF False kv _ JDict])
        show "(fst kv, snd kv) = kv" by simp
      next
        fix n assume "walks (snd kv) (JDict n)"
        then have "walks (JDict obj) (JDict n)"
          using walks_step_value [of "snd kv" "JDict n" d "fst kv" obj] kv JDict
          by (metis prod.collapse)
        then show "\<exists>ps. visit n = Inr ps" by (rule "1.prems")
      qed
      then show ?thesis using JDict by (simp add: walk_value_def)
    next
      case (JList items)
      have "\<forall>r \<in> set (map walk_item items). \<exists>qs. r = Inr qs"
      proof
        fix r assume "r \<in> set (map walk_item items)"
        then obtain item where item: "item \<in> set items" "r = walk_item item" by auto
        show "\<exists>qs. r = Inr qs"
        proof (cases item)
          case (JDict d)
          have "\<exists>people. traverse item = Inr people"
          proof (rule "1.IH"(1) [OF False kv _ JList item(1) JDict])
            show "(fst kv, snd kv) = kv" by simp
          next
            fix n assume "walks item (JDict n)"
            then have "walks (JDict obj) (JDict n)"
              using walks_step_item [of item "JDict n" d "fst kv" items obj] kv JList item(1) JDict
              by (metis prod.collapse)
            then show "\<exists>ps. visit n = Inr ps" by (rule "1.prems")
          qed
          then show ?thesis using item(2) JDict by (simp add: walk_item_def)
        qed (simp_all add: item(2) walk_item_def)
      qed
      then have "\<exists>qs. collect (map walk_item items) = Inr qs"
        by (simp only: collect_returns_iff)
      then show ?thesis using JList by (simp add: walk_value_def)
    qed (simp_all add: walk_value_def)
    have "\<forall>r \<in> set (visit obj # map (\<lambda>kv. walk_value (snd kv)) obj). \<exists>qs. r = Inr qs"
      using v c by auto
    then have "\<exists>ps. collect (visit obj # map (\<lambda>kv. walk_value (snd kv)) obj) = Inr ps"
      by (simp only: collect_returns_iff)
    then show ?thesis using False by (simp add: traverse_dict)
  qed
qed simp_all

text \<open>
  The extraction returns, rather than raises, exactly when none of the \<open>dict\<close>s the
  walk reaches raises in its own visit, that is in formatting one of its addresses.
\<close>

lemma extract_returns_iff:
  "(\<exists>people. extract_people_from_data data = Inr people)
     \<longleftrightarrow> (\<forall>obj. walks data (JDict obj) \<longrightarrow> (\<exists>ps. visit obj = Inr ps))"
proof
  assume "\<exists>people. extract_people_from_data data = Inr people"
  then obtain people where p: "extract_people_from_data data = Inr people" by blast
  show "\<forall>obj. walks data (JDict obj) \<longrightarrow> (\<exists>ps. visit obj = Inr ps)"
  proof (intro allI impI)
    fix obj assume w: "walks data (JDict obj)"
    from walks_traverse [OF w p] obtain qs where qs: "traverse (JDict obj) = Inr qs" by blast
    show "\<exists>ps. visit obj = Inr ps"
    proof (cases "obj = []")
      case True
      then show ?thesis by (simp add: visit_def looks_like_person_def dict_get_def dict_get_or_def)
    next
      case False
      from traverse_visit [OF qs False] show ?thesis by blast
    qed
  qed
next
  assume a: "\<forall>obj. walks data (JDict obj) \<longrightarrow> (\<exists>ps. visit obj = Inr ps)"
  show "\<exists>people. extract_people_from_data data = Inr people"
  proof (cases data)
    case (JDict d)
    then show ?thesis
      using traverse_returns [of data] a by (simp add: extract_walk_value walk_value_def)
  next
    case (JList items)
    have "\<forall>r \<in> set (map walk_item items). \<exists>qs. r = Inr qs"
    proof
      fix r assume "r \<in> set (map walk_item items)"
      then obtain item where item: "item \<in> set items" "r = walk_item item" by auto
      show "\<exists>qs. r = Inr qs"
      proof (cases item)
        case (JDict d)
        have "\<exists>people. traverse item = Inr people"
        proof (rule traverse_returns)
          fix n assume "walks item (JDict n)"
          then have "walks (JList items) (JDict n)"
            using walks_step_top [of item "JDict n" d items] item(1) JDict by simp
          then show "\<exists>ps. visit n = Inr ps" using a JList by blast
        qed
        then show ?thesis using item(2) JDict by (simp add: walk_item_def)
      qed (simp_all add: item(2) walk_item_def)
    qed
    then have "\<exists>qs. collect (map walk_item items) = Inr qs"
      by (simp only: collect_returns_iff)
    then show ?thesis using JList by (simp add: extract_walk_value walk_value_def)
  qed (simp_all add: extract_walk_value walk_value_def)
qed

text \<open>
  C5, as the claim states it, at a document that holds a named \<open>dict\<close> in a list of
  lists: the \<open>dict\<close> occurs in the document under a nesting of \<open>dict\<close>s and lists and
  carries a usable name, and the walk emits nothing.
\<close>

theorem list_of_lists_not_walked:
  "inside (JDict [(''a'', JList [JList [JDict [(''name'', JStr ''Bob'')]]])])
          (JDict [(''name'', JStr ''Bob'')]) \<and>
   looks_like_person [(''name'', JStr ''Bob'')] \<and>
   truthy (person_name [(''name'', JStr ''Bob'')]) \<and>
   extract_people_from_data (JDict [(''a'', JList [JList [JDict [(''name'', JStr ''Bob'')]]])])
     = Inr []"
proof -
  have "inside (JList [JList [JDict [(''name'', JStr ''Bob'')]]]) (JDict [(''name'', JStr ''Bob'')])"
    by (rule inside_list [where v = "JList [JDict [(''name'', JStr ''Bob'')]]"], simp)
       (rule inside_list [where v = "JDict [(''name'', JStr ''Bob'')]"], simp, rule inside_self)
  then have "inside (JDict [(''a'', JList [JList [JDict [(''name'', JStr ''Bob'')]]])])
          (JDict [(''name'', JStr ''Bob'')])"
    by (rule inside_dict [rotated]) simp
  moreover have "extract_people_from_data
      (JDict [(''a'', JList [JList [JDict [(''name'', JStr ''Bob'')]]])]) = Inr []"
    by (simp add: extract_walk_value walk_value_def walk_item_def traverse_dict visit_def
        looks_like_person_def dict_get_def dict_get_or_def)
  ultimately show ?thesis
    by (simp add: looks_like_person_def person_name_def py_or_def dict_get_def dict_get_or_def)
qed

text \<open>
  C5, amended. For every document on which the walk raises no exception, the walk
  continues from a \<open>dict\<close> into every value that is a \<open>dict\<close> and into every \<open>dict\<close> that
  is an item of a value that is a list, whether or not the \<open>dict\<close> it is at was emitted
  as a person; so every \<open>dict\<close> reached through such a nesting (\<open>walks\<close>) is visited
  and, if it carries a usable name, emitted as a record with its name, age, phones and
  addresses. (Nothing is said of a list that is itself an item of a list.)
\<close>

theorem walk_emits_every_named_node:
  assumes "extract_people_from_data data = Inr people"
    and "walks data (JDict obj)"
    and "looks_like_person obj" and "truthy (person_name obj)"
  shows "\<exists>addrs. extract_addresses obj = Inr addrs \<and>
           \<lparr>p_name = person_name obj, p_age = extract_age obj,
            p_phones = extract_phones obj, p_addresses = addrs\<rparr> \<in> set people"
proof -
  from walks_traverse [OF assms(2) assms(1)]
  obtain qs where qs: "traverse (JDict obj) = Inr qs" "set qs \<subseteq> set people"
    by blast
  from traverse_visit [OF qs(1) looks_like_person_nonempty [OF assms(3)]]
  obtain vs where vs: "visit obj = Inr vs" "set vs \<subseteq> set qs"
    by blast
  from vs(1) assms(3,4) obtain addrs where "extract_addresses obj = Inr addrs"
    and "vs = [\<lparr>p_name = person_name obj, p_age = extract_age obj,
            p_phones = extract_phones obj, p_addresses = addrs\<rparr>]"
    by (auto simp: visit_def split: sum.splits)
  then show ?thesis using vs(2) qs(2) by auto
qed



theorem walk_emits_every_named_node_witness:
  "\<exists>addrs. extract_addresses [(''firstname'', JStr ''Al''), (''lastname'', JStr ''Roe'')] = Inr addrs \<and>
     \<lparr>p_name = person_name [(''firstname'', JStr ''Al''), (''lastname'', JStr ''Roe'')],
      p_age = extract_age [(''firstname'', JStr ''Al''), (''lastname'', JStr ''Roe'')],
      p_phones = extract_phones [(''firstname'', JStr ''Al''), (''lastname'', JStr ''Roe'')],
      p_addresses = addrs\<rparr>
     \<in> set [\<lparr>p_name = JStr ''Bob'', p_age = JStr [], p_phones = [], p_addresses = []\<rparr>,
             \<lparr>p_name = JStr ''Al Roe'', p_age = JStr [], p_phones = [], p_addresses = []\<rparr>]"
proof -
  let ?al = "[(''firstname'', JStr ''Al''), (''lastname'', JStr ''Roe'')]"
  let ?bob = "[(''name'', JStr ''Bob''), (''household'', JList [JDict ?al])]"
  let ?doc = "JDict [(''owners'', JList [JDict ?bob])]"
  have x: "extract_people_from_data ?doc
      = Inr [\<lparr>p_name = JStr ''Bob'', p_age = JStr [], p_phones = [], p_addresses = []\<rparr>,
             \<lparr>p_name = JStr ''Al Roe'', p_age = JStr [], p_phones = [], p_addresses = []\<rparr>]"
    by code_simp
  have "walks ?doc (JDict ?bob)"
    by (rule walks_item [OF walks_root, where k = "''owners''" and items = "[JDict ?bob]"]) simp_all
  then have w: "walks ?doc (JDict ?al)"
    by (rule walks_item [where k = "''household''" and items = "[JDict ?al]"]) simp_all
  have l: "looks_like_person ?al"
    by (simp add: looks_like_person_def dict_get_def dict_get_or_def)
  have t: "truthy (person_name ?al)"
    by code_simp
  show ?thesis
    by (rule walk_emits_every_named_node [OF x w l t])
qed

text \<open>
  C10, as the claim states it, at two documents: a \<open>dict\<close> whose direct name is blank
  is emitted although the name is empty after trimming, and a \<open>dict\<close> whose name field
  holds a number is emitted with a name that is not a string.
\<close>

theorem emitted_name_blank_or_not_a_string:
  "extract_people_from_data (JDict [(''name'', JStr '' '')])
     = Inr [\<lparr>p_name = JStr '' '', p_age = JStr [], p_phones = [], p_addresses = []\<rparr>] \<and>
   strip '' '' = [] \<and>
   extract_people_from_data (JDict [(''name'', JInt 5)])
     = Inr [\<lparr>p_name = JInt 5, p_age = JStr [], p_phones = [], p_addresses = []\<rparr>]"
  by code_simp

text \<open>
  C10, amended. Every record the extractor emits has a name that is truthy, so never the
  empty string: a \<open>dict\<close> is emitted only when its direct name field is truthy, and the
  record then carries that value as it is (untrimmed, and of whatever type it has), or
  when the first-name and last-name fields, joined by a blank and trimmed, give a
  non-empty string, which is then the name.
\<close>

theorem emitted_name_truthy:
  assumes "extract_people_from_data data = Inr people" and "p \<in> set people"
  shows "truthy (p_name p) \<and> p_name p \<noteq> JStr [] \<and>
         (\<exists>obj. walks data (JDict obj) \<and>
            (if truthy (dict_get obj ''name'') then p_name p = dict_get obj ''name''
             else p_name p = JStr (full_name obj) \<and> full_name obj \<noteq> []))"
proof -
  from extract_origin [OF assms] obtain n where n: "walks data (JDict n)" "visit n = Inr [p]"
    by blast
  from n(2) have t: "truthy (person_name n)" and e: "p_name p = person_name n"
    by (auto simp: visit_def split: if_splits sum.splits)
  have "if truthy (dict_get n ''name'') then p_name p = dict_get n ''name''
        else p_name p = JStr (full_name n) \<and> full_name n \<noteq> []"
    using t e by (auto simp: person_name_def py_or_def full_name_def)
  moreover have "p_name p \<noteq> JStr []" using t e by auto
  ultimately show ?thesis using t e n(1) by auto
qed


theorem emitted_name_truthy_witness:
  "truthy (JStr ''Al Roe'') \<and> JStr ''Al Roe'' \<noteq> JStr [] \<and>
   (\<exists>obj. walks (JList [JDict [(''firstname'', JStr ''Al''), (''lastname'', JStr ''Roe'')]])
            (JDict obj) \<and>
      (if truthy (dict_get obj ''name'') then JStr ''Al Roe'' = dict_get obj ''name''
       else JStr ''Al Roe'' = JStr (full_name obj) \<and> full_name obj \<noteq> []))"
proof -
  let ?p = "\<lparr>p_name = JStr ''Al Roe'', p_age = JStr [], p_phones = [], p_addresses = []\<rparr>"
  have x: "extract_people_from_data
             (JList [JDict [(''firstname'', JStr ''Al''), (''lastname'', JStr ''Roe'')]])
           = Inr [?p]"
    by code_simp
  have m: "?p \<in> set [?p]" by simp
  show ?thesis
    using emitted_name_truthy [OF x m] unfolding person_info.select_convs .
qed

subsection \<open>The phones of a person\<close>

lemma add_phones_fold:
  "add_phones number acc entries = foldl append_new acc (filter truthy (map number entries))"
  unfolding add_phones_def
  by (induction entries arbitrary: acc) (simp_all add: Let_def)

lemma extract_phones_fold: "extract_phones obj = foldl append_new [] (phone_candidates obj)"
  by (simp add: extract_phones_def phone_candidates_def add_phones_fold Let_def)

lemma fold_append_new_subseq: "\<exists>r. foldl append_new acc xs = acc @ r \<and> subseq r xs"
proof (induction xs arbitrary: acc)
  case Nil
  then show ?case by simp
next
  case (Cons x xs)
  show ?case
  proof (cases "py_in x acc")
    case True
    from Cons.IH [of acc] obtain r where r: "foldl append_new acc xs = acc @ r" "subseq r xs"
      by blast
    have "foldl append_new acc (x # xs) = foldl append_new acc xs"
      using True by (simp add: append_new_def)
    moreover have "subseq r (x # xs)"
      using r(2) by (rule list_emb_Cons)
    ultimately show ?thesis using r(1) by simp
  next
    case False
    from Cons.IH [of "acc @ [x]"] obtain r
      where "foldl append_new (acc @ [x]) xs = (acc @ [x]) @ r" "subseq r xs"
      by blast
    then have "foldl append_new acc (x # xs) = acc @ (x # r) \<and> subseq (x # r) (x # xs)"
      using False by (simp add: append_new_def)
    then show ?thesis by blast
  qed
qed

lemma py_distinct_append_new: "py_distinct acc \<Longrightarrow> py_distinct (append_new acc x)"
proof (cases "py_in x acc")
  case True
  assume "py_distinct acc"
  then show ?thesis using True by (simp add: append_new_def)
next
  case False
  assume d: "py_distinct acc"
  have n: "\<forall>i < length acc. \<not> py_eq x (acc ! i)"
    using False by (auto simp: py_in_def list_ex_iff)
  have "py_distinct (acc @ [x])"
    unfolding py_distinct_def
  proof (intro allI impI)
    fix j i
    assume j: "j < length (acc @ [x])" and i: "i < j"
    show "\<not> py_eq ((acc @ [x]) ! j) ((acc @ [x]) ! i)"
    proof (cases "j < length acc")
      case True
      then show ?thesis using d i by (simp add: py_distinct_def nth_append)
    next
      case False
      then have "j = length acc" using j by simp
      then show ?thesis using n i by (simp add: nth_append)
    qed
  qed
  then show ?thesis using False by (simp add: append_new_def)
qed

lemma py_distinct_fold: "py_distinct acc \<Longrightarrow> py_distinct (foldl append_new acc xs)"
  by (induction xs arbitrary: acc) (simp_all add: py_distinct_append_new)

lemma set_append_new_mono: "set acc \<subseteq> set (append_new acc x)"
  by (auto simp: append_new_def)

lemma set_fold_append_new_mono: "set acc \<subseteq> set (foldl append_new acc xs)"
proof (induction xs arbitrary: acc)
  case Nil
  then show ?case by simp
next
  case (Cons x xs)
  have "set acc \<subseteq> set (append_new acc x)" by (rule set_append_new_mono)
  also have "\<dots> \<subseteq> set (foldl append_new (append_new acc x) xs)" by (rule Cons.IH)
  finally show ?case by simp
qed

lemma fold_append_new_covers:
  "c \<in> set xs \<Longrightarrow> \<exists>y \<in> set (foldl append_new acc xs). c = y \<or> py_eq c y"
proof (induction xs arbitrary: acc)
  case Nil
  then show ?case by simp
next
  case (Cons x xs)
  show ?case
  proof (cases "c = x")
    case True
    have "\<exists>y \<in> set (append_new acc x). c = y \<or> py_eq c y"
      using True by (auto simp: append_new_def py_in_def list_ex_iff)
    then show ?thesis
      using set_fold_append_new_mono [of "append_new acc x" xs] by auto
  next
    case False
    then have "c \<in> set xs" using Cons.prems by simp
    from Cons.IH [OF this, of "append_new acc x"] show ?thesis by simp
  qed
qed

lemma py_in_string: "py_in (JStr s) acc = (JStr s \<in> set acc)"
  by (auto simp: py_in_def list_ex_iff)

lemma fold_append_new_strings:
  assumes "\<forall>c \<in> set xs. \<exists>s. c = JStr s" and "distinct acc"
  shows "distinct (foldl append_new acc xs) \<and> set (foldl append_new acc xs) = set acc \<union> set xs"
  using assms
proof (induction xs arbitrary: acc)
  case Nil
  then show ?case by simp
next
  case (Cons x xs)
  from Cons.prems(1) obtain s where s: "x = JStr s" by auto
  have d: "distinct (append_new acc x)"
    using Cons.prems(2) s by (simp add: append_new_def py_in_string)
  have e: "set (append_new acc x) = insert x (set acc)"
    using s by (auto simp: append_new_def py_in_string)
  from Cons.IH [OF _ d] Cons.prems(1) e show ?case by auto
qed

text \<open>
  What holds of the phones whatever the entries are: the list is made of the numbers the
  four loops take, in the order they are met, and a number is kept unless it equals
  (Python's \<open>==\<close>) one kept before, which for strings is exact string equality. So the
  list is a subsequence of those numbers, no element equals an earlier one, each of the
  numbers is represented, and when they are all strings the list is duplicate-free with
  the same elements.
\<close>

lemma extract_phones_ordered_dedup:
  "extract_phones obj = foldl append_new [] (phone_candidates obj) \<and>
   subseq (extract_phones obj) (phone_candidates obj) \<and>
   py_distinct (extract_phones obj) \<and>
   (\<forall>c \<in> set (phone_candidates obj). \<exists>y \<in> set (extract_phones obj). c = y \<or> py_eq c y) \<and>
   ((\<forall>c \<in> set (phone_candidates obj). \<exists>s. c = JStr s) \<longrightarrow>
      distinct (extract_phones obj) \<and> set (extract_phones obj) = set (phone_candidates obj))"
proof -
  have "subseq (extract_phones obj) (phone_candidates obj)"
    using fold_append_new_subseq [of "[]" "phone_candidates obj"]
    by (auto simp: extract_phones_fold)
  moreover have "py_distinct (extract_phones obj)"
    unfolding extract_phones_fold by (rule py_distinct_fold) (simp add: py_distinct_def)
  moreover have "\<forall>c \<in> set (phone_candidates obj). \<exists>y \<in> set (extract_phones obj). c = y \<or> py_eq c y"
    unfolding extract_phones_fold using fold_append_new_covers by blast
  moreover have "(\<forall>c \<in> set (phone_candidates obj). \<exists>s. c = JStr s) \<longrightarrow>
      distinct (extract_phones obj) \<and> set (extract_phones obj) = set (phone_candidates obj)"
    unfolding extract_phones_fold
    using fold_append_new_strings [of "phone_candidates obj" "[]"] by simp
  ultimately show ?thesis
    by (simp add: extract_phones_fold)
qed

text \<open>
  C6. The claim has the alternate-phones list read like the generic phones list: the
  number under one of several field names, or the entry itself when it is a bare
  string. The loop of lines 1832 to 1837 takes only the \<open>phoneNumber\<close> of an entry that
  is a \<open>dict\<close>. On the phone document with the one owner Bob, whose \<open>alternate_phones\<close>
  are the bare string 4155551234 and an object with 4155559999 under \<open>phone_number\<close>,
  \<open>extract_people_from_data\<close> emits Bob with no phone at all, where the claim has both
  numbers. The code itself reads these forms elsewhere: \<open>process_row\<close> (lines 505 to 515
  of \<open>lead_processor_v2.py\<close>, with the comments \<open>Try different possible keys\<close> and
  \<open>Sometimes it's just a string\<close>) takes both numbers from the same owner of the same
  document, and the \<open>phones\<close> loop of \<open>traverse\<close> itself (lines 1839 to 1849) takes both
  when the same two entries stand under \<open>phones\<close>.
\<close>

theorem alternate_phones_forms_dropped:
  "extract_people_from_data
     (JDict [(''owners'', JList [JDict
        [(''name'', JStr ''Bob''),
         (''alternate_phones'',
          JList [JStr ''4155551234'', JDict [(''phone_number'', JStr ''4155559999'')]])]])])
   = Inr [\<lparr>p_name = JStr ''Bob'', p_age = JStr [], p_phones = [], p_addresses = []\<rparr>] \<and>
   owner_phones
     [(''owners'', JList [JDict
        [(''name'', JStr ''Bob''),
         (''alternate_phones'',
          JList [JStr ''4155551234'', JDict [(''phone_number'', JStr ''4155559999'')]])]])]
     [(''name'', JStr ''Bob''),
      (''alternate_phones'',
       JList [JStr ''4155551234'', JDict [(''phone_number'', JStr ''4155559999'')]])]
   = Inr [JStr ''4155551234'', JStr ''4155559999''] \<and>
   extract_phones
     [(''name'', JStr ''Bob''),
      (''phones'',
       JList [JStr ''4155551234'', JDict [(''phone_number'', JStr ''4155559999'')]])]
   = [JStr ''4155551234'', JStr ''4155559999'']"
  by code_simp

section \<open>Properties of the accumulators\<close>

subsection \<open>The sentinel\<close>

lemma merge_first_names:
  assumes "merge_first P f xs = Some ys" and "\<And>x. g (f x) = g x"
  shows "map g ys = map g xs"
  using assms(1)
proof (induction xs arbitrary: ys)
  case Nil
  then show ?case by simp
next
  case (Cons x xs)
  then show ?case
    by (auto simp: assms(2) split: if_splits)
qed

lemma add_found_names:
  "set (map p_name (add_found found p)) \<subseteq> insert (p_name p) (set (map p_name found))"
proof (cases "merge_first (\<lambda>q. py_eq (p_name q) (p_name p))
             (\<lambda>existing.
                existing\<lparr>p_phones := foldl append_new (p_phones existing) (p_phones p),
                         p_addresses :=
                           foldl append_new_str (p_addresses existing) (p_addresses p)\<rparr>)
             found")
  case None
  then show ?thesis by (auto simp: add_found_def)
next
  case (Some ys)
  from merge_first_names [OF Some, of p_name] have "map p_name ys = map p_name found"
    by simp
  then show ?thesis using Some by (simp add: add_found_def subset_insertI)
qed

lemma fold_add_found_names:
  "set (map p_name (foldl add_found found ps)) \<subseteq> set (map p_name found) \<union> set (map p_name ps)"
proof (induction ps arbitrary: found)
  case Nil
  then show ?case by simp
next
  case (Cons p ps)
  have "set (map p_name (foldl add_found (add_found found p) ps))
          \<subseteq> set (map p_name (add_found found p)) \<union> set (map p_name ps)"
    by (rule Cons.IH)
  also have "\<dots> \<subseteq> insert (p_name p) (set (map p_name found)) \<union> set (map p_name ps)"
    using add_found_names [of found p] by blast
  finally show ?case by auto
qed

lemma add_found_nonempty: "add_found found p \<noteq> []"
  by (cases found) (auto simp: add_found_def split: option.splits if_splits)

lemma fold_add_found_nonempty: "found \<noteq> [] \<or> ps \<noteq> [] \<Longrightarrow> foldl add_found found ps \<noteq> []"
proof (induction ps arbitrary: found)
  case Nil
  then show ?case by simp
next
  case (Cons p ps)
  show ?case
    using Cons.IH [of "add_found found p"] add_found_nonempty [of found p] by simp
qed

lemma plain_document_names:
  assumes "plain_document data" and "people_of data = Inr ps"
  shows "JStr ''NO RESULTS FOUND'' \<notin> set (map p_name ps)"
  using assms by (auto simp: plain_document_def list_ex_iff)

lemma process_lookup_data_cases:
  assumes "process_lookup_data person pd ad = Inr rs"
  obtains failed pp ap where "address_missed ad = Inr failed" "people_of pd = Inr pp"
    "people_of ad = Inr ap"
    "rs = (if foldl add_found (foldl add_found [] pp) ap = [] then [no_results person failed]
           else map (result_of person failed) (foldl add_found (foldl add_found [] pp) ap))"
  using assms by (auto simp: process_lookup_data_def Let_def split: sum.splits)

lemma process_lookup_data_sentinel:
  assumes "process_lookup_data person pd ad = Inr rs" and "plain_document pd" and "plain_document ad"
  shows "sentinel_alone rs"
proof -
  from assms(1) obtain failed pp ap where h: "address_missed ad = Inr failed"
    "people_of pd = Inr pp" "people_of ad = Inr ap"
    "rs = (if foldl add_found (foldl add_found [] pp) ap = [] then [no_results person failed]
           else map (result_of person failed) (foldl add_found (foldl add_found [] pp) ap))"
    by (rule process_lookup_data_cases)
  let ?found = "foldl add_found (foldl add_found [] pp) ap"
  have "set (map p_name ?found) \<subseteq> set (map p_name pp) \<union> set (map p_name ap)"
    using fold_add_found_names [of "foldl add_found [] pp" ap] fold_add_found_names [of "[]" pp]
    by auto
  then have n: "JStr ''NO RESULTS FOUND'' \<notin> set (map p_name ?found)"
    using plain_document_names [OF assms(2) h(2)] plain_document_names [OF assms(3) h(3)]
    by blast
  show ?thesis
  proof (cases "?found = []")
    case True
    then show ?thesis using h(4) by (simp add: sentinel_alone_def)
  next
    case False
    then have "rs = map (result_of person failed) ?found" using h(4) by simp
    then have "\<forall>r \<in> set rs. \<not> is_sentinel r"
      using n by (force simp: is_sentinel_def result_of_def)
    then show ?thesis by (simp add: sentinel_alone_def)
  qed
qed

lemma accumulate_person_names:
  "set (map new_name (accumulate_person clear person rs p))
     \<subseteq> insert (p_name p) (set (map new_name rs))"
proof (cases "merge_first (\<lambda>r. py_eq (new_name r) (p_name p)) (merge_result clear p) rs")
  case None
  then show ?thesis by (auto simp: accumulate_person_def result_of_def)
next
  case (Some ys)
  have "\<And>x. new_name (merge_result clear p x) = new_name x"
    by (simp add: merge_result_def Let_def)
  from merge_first_names [OF Some, of new_name, OF this] have "map new_name ys = map new_name rs" .
  then show ?thesis using Some by (simp add: accumulate_person_def subset_insertI)
qed

lemma fold_accumulate_person_names:
  "set (map new_name (foldl (accumulate_person clear person) rs ps))
     \<subseteq> set (map new_name rs) \<union> set (map p_name ps)"
proof (induction ps arbitrary: rs)
  case Nil
  then show ?case by simp
next
  case (Cons p ps)
  have "set (map new_name (foldl (accumulate_person clear person) (accumulate_person clear person rs p) ps))
          \<subseteq> set (map new_name (accumulate_person clear person rs p)) \<union> set (map p_name ps)"
    by (rule Cons.IH)
  also have "\<dots> \<subseteq> insert (p_name p) (set (map new_name rs)) \<union> set (map p_name ps)"
    using accumulate_person_names [of clear person rs p] by blast
  finally show ?case by auto
qed

lemma not_fresh_no_sentinel:
  assumes "\<not> starts_fresh rs" and "sentinel_alone rs"
  shows "JStr ''NO RESULTS FOUND'' \<notin> set (map new_name rs)"
proof
  assume "JStr ''NO RESULTS FOUND'' \<in> set (map new_name rs)"
  then obtain r where r: "r \<in> set rs" "is_sentinel r"
    by (auto simp: is_sentinel_def)
  then have "rs = [r]" using assms(2) by (simp add: sentinel_alone_def)
  then show False using assms(1) r(2) by (simp add: starts_fresh_def is_sentinel_def)
qed

lemma accumulate_keeps_sentinel_alone:
  assumes "sentinel_alone rs" and "plain_document data"
    and "people_of data = Inr ps" and "\<not> starts_fresh rs"
  shows "sentinel_alone (foldl (accumulate_person clear person) rs ps)"
proof -
  have "JStr ''NO RESULTS FOUND'' \<notin> set (map new_name (foldl (accumulate_person clear person) rs ps))"
    using fold_accumulate_person_names [of clear person rs ps]
      not_fresh_no_sentinel [OF assms(4,1)] plain_document_names [OF assms(2,3)]
    by blast
  then show ?thesis
    by (force simp: sentinel_alone_def is_sentinel_def)
qed

lemma plain_document_JNull: "plain_document JNull"
  by (simp add: plain_document_def people_of_def)

lemma reachable_sentinel_alone:
  assumes "reachable plain_document rs"
  shows "sentinel_alone rs"
  using assms
proof (induction rule: reachable.induct)
  case reach_init
  then show ?case by (simp add: sentinel_alone_def)
next
  case (reach_lookup phone_data address_data person rs)
  then show ?case by (blast intro: process_lookup_data_sentinel)
next
  case (reach_phone rs phone_data person rs')
  show ?case
  proof (cases "starts_fresh rs")
    case True
    then have "process_lookup_data person phone_data JNull = Inr rs'"
      using reach_phone.hyps(3) by (simp add: accumulate_phone_results_def)
    then show ?thesis
      using reach_phone.hyps(2) plain_document_JNull by (blast intro: process_lookup_data_sentinel)
  next
    case False
    then obtain ps where "people_of phone_data = Inr ps"
      "rs' = foldl (accumulate_person False person) rs ps"
      using reach_phone.hyps(3) by (auto simp: accumulate_phone_results_def split: sum.splits)
    then show ?thesis
      using accumulate_keeps_sentinel_alone [OF reach_phone.IH reach_phone.hyps(2) _ False]
      by simp
  qed
next
  case (reach_address rs address_data person rs')
  show ?case
  proof (cases "starts_fresh rs")
    case True
    then have "process_lookup_data person JNull address_data = Inr rs'"
      using reach_address.hyps(3) by (simp add: accumulate_address_results_def)
    then show ?thesis
      using reach_address.hyps(2) plain_document_JNull
      by (blast intro: process_lookup_data_sentinel)
  next
    case False
    then obtain ps where "people_of address_data = Inr ps"
      "rs' = foldl (accumulate_person True person) rs ps"
      using reach_address.hyps(3) by (auto simp: accumulate_address_results_def split: sum.splits)
    then show ?thesis
      using accumulate_keeps_sentinel_alone [OF reach_address.IH reach_address.hyps(2) _ False]
      by simp
  qed
qed

lemma sentinel_starts_fresh: "is_sentinel s \<Longrightarrow> starts_fresh [s]"
  by (simp add: starts_fresh_def is_sentinel_def)

lemma people_of_JNull: "people_of JNull = Inr []"
  by (simp add: people_of_def)

lemma address_missed_JNull: "address_missed JNull = Inr True"
  by (simp add: address_missed_def)

text \<open>
  C2, as the claim states it, at a phone document with an owner whose name is the
  reserved string and a second owner: \<open>process_lookup_data\<close> returns a list of two
  results of which the first has the sentinel's name, so the list is reachable and the
  sentinel is not alone in it; the accumulators take that list for a sentinel-only one
  (\<open>starts_fresh\<close>) and would replace it, real entry included.
\<close>

theorem sentinel_beside_real_entry:
  "process_lookup_data
     \<lparr>c_name = ''Ann'', c_phone = ''(415) 555-1234'', c_address = ''1 Main St''\<rparr>
     (JDict [(''owners'', JList [JDict [(''name'', JStr ''NO RESULTS FOUND'')],
                                 JDict [(''name'', JStr ''Bob'')]])])
     JNull
   = Inr [\<lparr>original_address = ''1 Main St'', original_phone = ''+14155551234'', blank = [],
           age = JStr [], original_name = ''Ann'', new_phones = [], new_addresses = [],
           new_name = JStr ''NO RESULTS FOUND'', status = [], notes_field = [],
           address_lookup_failed = True\<rparr>,
          \<lparr>original_address = ''1 Main St'', original_phone = ''+14155551234'', blank = [],
           age = JStr [], original_name = ''Ann'', new_phones = [], new_addresses = [],
           new_name = JStr ''Bob'', status = [], notes_field = [],
           address_lookup_failed = True\<rparr>] \<and>
   reachable any_document
     [\<lparr>original_address = ''1 Main St'', original_phone = ''+14155551234'', blank = [],
       age = JStr [], original_name = ''Ann'', new_phones = [], new_addresses = [],
       new_name = JStr ''NO RESULTS FOUND'', status = [], notes_field = [],
       address_lookup_failed = True\<rparr>,
      \<lparr>original_address = ''1 Main St'', original_phone = ''+14155551234'', blank = [],
       age = JStr [], original_name = ''Ann'', new_phones = [], new_addresses = [],
       new_name = JStr ''Bob'', status = [], notes_field = [],
       address_lookup_failed = True\<rparr>] \<and>
   \<not> sentinel_alone
     [\<lparr>original_address = ''1 Main St'', original_phone = ''+14155551234'', blank = [],
       age = JStr [], original_name = ''Ann'', new_phones = [], new_addresses = [],
       new_name = JStr ''NO RESULTS FOUND'', status = [], notes_field = [],
       address_lookup_failed = True\<rparr>,
      \<lparr>original_address = ''1 Main St'', original_phone = ''+14155551234'', blank = [],
       age = JStr [], original_name = ''Ann'', new_phones = [], new_addresses = [],
       new_name = JStr ''Bob'', status = [], notes_field = [],
       address_lookup_failed = True\<rparr>] \<and>
   starts_fresh
     [\<lparr>original_address = ''1 Main St'', original_phone = ''+14155551234'', blank = [],
       age = JStr [], original_name = ''Ann'', new_phones = [], new_addresses = [],
       new_name = JStr ''NO RESULTS FOUND'', status = [], notes_field = [],
       address_lookup_failed = True\<rparr>,
      \<lparr>original_address = ''1 Main St'', original_phone = ''+14155551234'', blank = [],
       age = JStr [], original_name = ''Ann'', new_phones = [], new_addresses = [],
       new_name = JStr ''Bob'', status = [], notes_field = [],
       address_lookup_failed = True\<rparr>]"
proof -
  let ?c = "\<lparr>c_name = ''Ann'', c_phone = ''(415) 555-1234'', c_address = ''1 Main St''\<rparr>"
  let ?doc = "JDict [(''owners'', JList [JDict [(''name'', JStr ''NO RESULTS FOUND'')],
                                         JDict [(''name'', JStr ''Bob'')]])]"
  let ?rs = "[\<lparr>original_address = ''1 Main St'', original_phone = ''+14155551234'', blank = [],
       age = JStr [], original_name = ''Ann'', new_phones = [], new_addresses = [],
       new_name = JStr ''NO RESULTS FOUND'', status = [], notes_field = [],
       address_lookup_failed = True\<rparr>,
      \<lparr>original_address = ''1 Main St'', original_phone = ''+14155551234'', blank = [],
       age = JStr [], original_name = ''Ann'', new_phones = [], new_addresses = [],
       new_name = JStr ''Bob'', status = [], notes_field = [],
       address_lookup_failed = True\<rparr>]"
  have p: "process_lookup_data ?c ?doc JNull = Inr ?rs"
    by code_simp
  have "reachable any_document ?rs"
    by (rule reach_lookup [where D = any_document, OF _ _ p]) (simp_all add: any_document_def)
  moreover have "\<not> sentinel_alone ?rs"
    by (simp add: sentinel_alone_def is_sentinel_def)
  moreover have "starts_fresh ?rs"
    by (simp add: starts_fresh_def)
  ultimately show ?thesis using p by simp
qed

text \<open>
  C2, amended. For every list reachable through \<open>process_lookup_data\<close>,
  \<open>accumulate_phone_results\<close> and \<open>accumulate_address_results\<close> from documents in which
  no extracted person is named by the reserved string, a result with the sentinel's name
  is the sole element of the list; and accumulating such a document with at least one
  person into a sentinel-only list discards the sentinel and builds the list from the
  incoming records alone, one result per merged record, none of them the sentinel.
\<close>

theorem sentinel_stands_alone:
  "(reachable plain_document rs \<longrightarrow> sentinel_alone rs) \<and>
   (is_sentinel s \<and> plain_document data \<and> people_of data = Inr ps \<and> ps \<noteq> [] \<longrightarrow>
      foldl add_found [] ps \<noteq> [] \<and>
      (\<forall>q \<in> set (foldl add_found [] ps). p_name q \<noteq> JStr ''NO RESULTS FOUND'') \<and>
      accumulate_phone_results [s] data person
        = Inr (map (result_of person True) (foldl add_found [] ps)) \<and>
      (\<forall>failed. address_missed data = Inr failed \<longrightarrow>
         accumulate_address_results [s] data person
           = Inr (map (result_of person failed) (foldl add_found [] ps))))"
proof (intro conjI impI)
  assume "reachable plain_document rs"
  then show "sentinel_alone rs" by (rule reachable_sentinel_alone)
next
  assume a: "is_sentinel s \<and> plain_document data \<and> people_of data = Inr ps \<and> ps \<noteq> []"
  then show ne: "foldl add_found [] ps \<noteq> []"
    using fold_add_found_nonempty [of "[]" ps] by simp
  show "\<forall>q \<in> set (foldl add_found [] ps). p_name q \<noteq> JStr ''NO RESULTS FOUND''"
    using fold_add_found_names [of "[]" ps] plain_document_names [of data ps] a by force
  show "accumulate_phone_results [s] data person
        = Inr (map (result_of person True) (foldl add_found [] ps))"
    using a ne
    by (simp add: accumulate_phone_results_def sentinel_starts_fresh process_lookup_data_def
        people_of_JNull address_missed_JNull)
  show "\<forall>failed. address_missed data = Inr failed \<longrightarrow>
         accumulate_address_results [s] data person
           = Inr (map (result_of person failed) (foldl add_found [] ps))"
    using a ne
    by (simp add: accumulate_address_results_def sentinel_starts_fresh process_lookup_data_def
        people_of_JNull)
qed


theorem sentinel_stands_alone_witness:
  "sentinel_alone
     [\<lparr>original_address = ''1 Main St'', original_phone = ''+14155551234'', blank = [],
       age = JStr [], original_name = ''Ann'', new_phones = [], new_addresses = [],
       new_name = JStr ''NO RESULTS FOUND'', status = [], notes_field = [],
       address_lookup_failed = True\<rparr>] \<and>
   accumulate_phone_results
     [\<lparr>original_address = ''1 Main St'', original_phone = ''+14155551234'', blank = [],
       age = JStr [], original_name = ''Ann'', new_phones = [], new_addresses = [],
       new_name = JStr ''NO RESULTS FOUND'', status = [], notes_field = [],
       address_lookup_failed = True\<rparr>]
     (JDict [(''owners'', JList [JDict [(''name'', JStr ''Alice'')]])])
     \<lparr>c_name = ''Ann'', c_phone = ''(415) 555-1234'', c_address = ''1 Main St''\<rparr>
   = Inr (map (result_of \<lparr>c_name = ''Ann'', c_phone = ''(415) 555-1234'', c_address = ''1 Main St''\<rparr> True)
            (foldl add_found []
               [\<lparr>p_name = JStr ''Alice'', p_age = JStr [], p_phones = [], p_addresses = []\<rparr>]))"
proof -
  let ?c = "\<lparr>c_name = ''Ann'', c_phone = ''(415) 555-1234'', c_address = ''1 Main St''\<rparr>"
  let ?s = "\<lparr>original_address = ''1 Main St'', original_phone = ''+14155551234'', blank = [],
       age = JStr [], original_name = ''Ann'', new_phones = [], new_addresses = [],
       new_name = JStr ''NO RESULTS FOUND'', status = [], notes_field = [],
       address_lookup_failed = True\<rparr>"
  let ?doc = "JDict [(''owners'', JList [JDict [(''name'', JStr ''Alice'')]])]"
  let ?ps = "[\<lparr>p_name = JStr ''Alice'', p_age = JStr [], p_phones = [], p_addresses = []\<rparr>]"
  have p: "process_lookup_data ?c JNull JNull = Inr [?s]"
    by code_simp
  have n: "plain_document JNull"
    by (simp add: plain_document_def people_of_def)
  have r: "reachable plain_document [?s]"
    by (rule reach_lookup [where D = plain_document, OF n n p])
  have s: "is_sentinel ?s"
    by (simp add: is_sentinel_def)
  have e: "people_of ?doc = Inr ?ps"
    by code_simp
  have d: "plain_document ?doc"
    by (simp add: plain_document_def e)
  from sentinel_stands_alone
         [where rs = "[?s]" and s = ?s and data = ?doc and ps = ?ps and person = ?c] r s d e
  show ?thesis by simp
qed

subsection \<open>The flag \<open>address_lookup_failed\<close>\<close>

















end
